theory Spec2Isabelle
  imports
    Main
    "HOL-Library.Char_ord"
    "HOL-Library.List_Lexorder"
    "HOL-Library.Product_Lexorder"
    "HOL-Library.AList"
    "HOL-Library.Multiset"
begin

section \<open>The version updater of the add-on repository\<close>

text \<open>
  The program is \<^verbatim>\<open>update-versions.py\<close>: \<^verbatim>\<open>get_latest_tag\<close> asks Docker Hub for the
  tags of an image and picks the latest one, \<^verbatim>\<open>update_config_files\<close> walks a directory
  and rewrites the \<^verbatim>\<open>version\<close> of every \<^verbatim>\<open>config.yaml\<close> that names an image.

  The libraries the program calls are parameters of the embedding, collected in the
  record \<open>world\<close>: the HTTP client (\<^verbatim>\<open>requests.get\<close>, \<^verbatim>\<open>raise_for_status\<close> and
  \<^verbatim>\<open>response.json\<close> taken together), the version parser (\<^verbatim>\<open>packaging.version.parse\<close>),
  the YAML loader and dumper, and the directory walk. Strings are byte strings compared
  byte by byte, which is Python's code point order on the ASCII names Docker Hub allows
  for tags.
\<close>

subsection \<open>Exceptions\<close>

text \<open>
  The exception classes that matter to the handlers of the program. All of them are
  subclasses of \<^verbatim>\<open>Exception\<close>; only \<open>RequestException\<close> is caught by the handler of the
  paging loop. Asynchronous interrupts are outside the embedding.
\<close>

datatype exn =
    RequestException
  | KeyError
  | IndexError
  | TypeError
  | ValueError
  | AttributeError
  | OSError
  | YAMLError

subsection \<open>Values\<close>

text \<open>
  The values that the JSON decoder and the YAML loader hand to the program: \<^verbatim>\<open>None\<close>,
  truth values, integers, strings, lists and dictionaries. A dictionary keeps the order
  of its keys, which are distinct; floating point numbers are left out.
\<close>

datatype pyval =
    VNone
  | VBool bool
  | VInt int
  | VStr string
  | VList "pyval list"
  | VDict "(pyval \<times> pyval) list"

text \<open>The truth value of a value in a condition.\<close>

fun truthy :: "pyval \<Rightarrow> bool" where
  "truthy VNone = False"
| "truthy (VBool b) = b"
| "truthy (VInt n) = (n \<noteq> 0)"
| "truthy (VStr s) = (s \<noteq> [])"
| "truthy (VList xs) = (xs \<noteq> [])"
| "truthy (VDict kvs) = (kvs \<noteq> [])"

text \<open>
  \<^verbatim>\<open>data.get(key, default)\<close>: only a dictionary has the method, on any other value the
  attribute lookup raises \<^verbatim>\<open>AttributeError\<close>.
\<close>

fun dict_get :: "pyval \<Rightarrow> string \<Rightarrow> pyval \<Rightarrow> exn + pyval" where
  "dict_get (VDict kvs) key dflt =
     Inr (case map_of kvs (VStr key) of None \<Rightarrow> dflt | Some v \<Rightarrow> v)"
| "dict_get v key dflt = Inl AttributeError"

text \<open>
  \<^verbatim>\<open>for x in v\<close>: the elements of a list, the keys of a dictionary, the characters of
  a string; another value is not iterable.
\<close>

fun iterate :: "pyval \<Rightarrow> exn + pyval list" where
  "iterate (VList xs) = Inr xs"
| "iterate (VDict kvs) = Inr (map fst kvs)"
| "iterate (VStr s) = Inr (map (\<lambda>c. VStr [c]) s)"
| "iterate v = Inl TypeError"

text \<open>
  \<^verbatim>\<open>tag['name']\<close>: a dictionary without the key raises \<^verbatim>\<open>KeyError\<close>, a value that is not
  a dictionary cannot be indexed by a string and raises \<^verbatim>\<open>TypeError\<close>.
\<close>

fun getitem :: "pyval \<Rightarrow> string \<Rightarrow> exn + pyval" where
  "getitem (VDict kvs) key =
     (case map_of kvs (VStr key) of None \<Rightarrow> Inl KeyError | Some v \<Rightarrow> Inr v)"
| "getitem v key = Inl TypeError"

subsection \<open>The registry\<close>

text \<open>
  A request either raises or yields the decoded body, which may be any value. The
  client is handed whatever value \<^verbatim>\<open>tags_url\<close> holds.
\<close>

datatype response = Raises exn | Json pyval

subsection \<open>Versions\<close>

text \<open>
  \<^verbatim>\<open>version.parse(tag)\<close> on a string raises (\<open>Invalid\<close>: \<^verbatim>\<open>InvalidVersion\<close> is a
  \<^verbatim>\<open>ValueError\<close>), returns a \<^verbatim>\<open>LegacyVersion\<close>, or returns a \<^verbatim>\<open>Version\<close>; on a value that is
  not a string it raises \<^verbatim>\<open>TypeError\<close>. The type \<open>'v\<close> stands for the comparison key of a
  \<^verbatim>\<open>Version\<close>, a linear order on which equal keys are equal versions. The class
  \<^verbatim>\<open>version.LegacyVersion\<close> that line 60 names is taken to exist in the library.
\<close>

datatype 'v parsed = Invalid | Legacy | Version 'v

subsection \<open>Log records\<close>

text \<open>One constructor for each logging call of the program, with the values it formats.\<close>

datatype event =
    Error_fetching string exn
  | Found_tags nat string
  | No_semantic_versions string
  | Error_sorting string exn
  | Skipping_not_dict string
  | Processing string pyval
  | Latest_version pyval pyval
  | Updating string pyval pyval
  | Already_latest string pyval
  | Could_not_determine pyval
  | Error_processing string exn

datatype level = DEBUG | INFO | WARNING | ERROR

fun level_of :: "event \<Rightarrow> level" where
  "level_of (Error_fetching _ _) = ERROR"
| "level_of (Found_tags _ _) = DEBUG"
| "level_of (No_semantic_versions _) = WARNING"
| "level_of (Error_sorting _ _) = ERROR"
| "level_of (Skipping_not_dict _) = WARNING"
| "level_of (Processing _ _) = INFO"
| "level_of (Latest_version _ _) = INFO"
| "level_of (Updating _ _ _) = INFO"
| "level_of (Already_latest _ _) = INFO"
| "level_of (Could_not_determine _) = WARNING"
| "level_of (Error_processing _ _) = ERROR"

subsection \<open>The environment\<close>

text \<open>
  The libraries and the parts of the runtime that the embedding leaves open. What
  \<^verbatim>\<open>sorted\<close> and \<^verbatim>\<open>!=\<close> do is written out for strings. On a list \<open>xs\<close> that holds a
  value other than a string, \<open>first_other\<close> is what \<^verbatim>\<open>sorted(xs, reverse=True)\<close> does: it
  raises (\<^verbatim>\<open>TypeError\<close> for values that do not compare) or it puts one of the values
  first, given by its position in \<open>xs\<close>, counted modulo the length. \<open>equal_other\<close> is
  \<^verbatim>\<open>==\<close> against a value other than a string.
\<close>

record 'v world =
  requests_get :: "pyval \<Rightarrow> response"
  version_parse :: "string \<Rightarrow> 'v parsed"
  os_walk :: "string \<Rightarrow> (string \<times> string list \<times> string list) list"
  safe_load :: "string \<Rightarrow> exn + pyval"
  dump :: "(pyval \<times> pyval) list \<Rightarrow> string"
  writable :: "string \<Rightarrow> bool"
  format_value :: "pyval \<Rightarrow> string"
  first_other :: "pyval list \<Rightarrow> exn + nat"
  equal_other :: "pyval \<Rightarrow> pyval \<Rightarrow> bool"

subsection \<open>\<^verbatim>\<open>get_latest_tag\<close>: paging\<close>

text \<open>\<^verbatim>\<open>char.isdigit()\<close> on an ASCII character, and \<^verbatim>\<open>s.isdigit()\<close> on a string.\<close>

definition isdigit :: "char \<Rightarrow> bool" where
  "isdigit c \<longleftrightarrow> CHR ''0'' \<le> c \<and> c \<le> CHR ''9''"

definition str_isdigit :: "string \<Rightarrow> bool" where
  "str_isdigit s \<longleftrightarrow> s \<noteq> [] \<and> list_all isdigit s"

text \<open>
  \<^verbatim>\<open>any(char.isdigit() for char in name)\<close>: the elements are tried in order up to the
  first that is all digits; an element that is not a string has no method \<^verbatim>\<open>isdigit\<close>.
  The elements of a string are its characters.
\<close>

fun any_isdigit :: "pyval list \<Rightarrow> exn + bool" where
  "any_isdigit [] = Inr False"
| "any_isdigit (VStr s # rest) = (if str_isdigit s then Inr True else any_isdigit rest)"
| "any_isdigit (v # rest) = Inl AttributeError"

definition has_digit :: "pyval \<Rightarrow> exn + bool" where
  "has_digit name = (case iterate name of Inl e \<Rightarrow> Inl e | Inr chars \<Rightarrow> any_isdigit chars)"

text \<open>
  The comprehension of line 38,
  \<^verbatim>\<open>[tag['name'] for tag in results if any(char.isdigit() for char in tag['name'])]\<close>,
  over the elements of \<^verbatim>\<open>results\<close>: the first entry that raises ends it.
\<close>

fun digit_names :: "pyval list \<Rightarrow> exn + pyval list" where
  "digit_names [] = Inr []"
| "digit_names (tag # rest) =
     (case getitem tag ''name'' of
        Inl e \<Rightarrow> Inl e
      | Inr name \<Rightarrow>
          (case has_digit name of
             Inl e \<Rightarrow> Inl e
           | Inr keep \<Rightarrow>
               (case digit_names rest of
                  Inl e \<Rightarrow> Inl e
                | Inr names \<Rightarrow> Inr (if keep then name # names else names))))"

text \<open>
  Lines 37 to 41 on a decoded body: the candidates of the page and the value of
  \<^verbatim>\<open>data.get('next')\<close>, or the exception that one of the lines raises.
\<close>

definition read_page :: "pyval \<Rightarrow> exn + (pyval list \<times> pyval)" where
  "read_page data =
     (case dict_get data ''results'' (VList []) of
        Inl e \<Rightarrow> Inl e
      | Inr results \<Rightarrow>
          (case iterate results of
             Inl e \<Rightarrow> Inl e
           | Inr tags \<Rightarrow>
               (case digit_names tags of
                  Inl e \<Rightarrow> Inl e
                | Inr names \<Rightarrow>
                    (case dict_get data ''next'' VNone of
                       Inl e \<Rightarrow> Inl e
                     | Inr next_url \<Rightarrow> Inr (names, next_url)))))"

text \<open>
  How the \<^verbatim>\<open>while\<close> loop of lines 30 to 49 ends: it falls through with the
  accumulated tags, it returns \<^verbatim>\<open>None\<close> from the handler of \<^verbatim>\<open>RequestException\<close>, or an
  exception of another class leaves the function.
\<close>

datatype fetched = Fetched "pyval list" | Request_failed | Raised exn

text \<open>
  The loop itself. Nothing bounds the number of its rounds, so it is a partial function:
  the value \<open>None\<close> is a loop that never ends.
\<close>

partial_function (option) fetch_pages ::
  "(pyval \<Rightarrow> response) \<Rightarrow> pyval \<Rightarrow> pyval list \<Rightarrow> nat \<Rightarrow> nat \<Rightarrow> fetched option"
where
  "fetch_pages get tags_url all_tags current_page max_pages =
     (if truthy tags_url \<and> current_page < max_pages then
        (case get tags_url of
           Raises e \<Rightarrow>
             if e = RequestException then Some Request_failed else Some (Raised e)
         | Json data \<Rightarrow>
             (case read_page data of
                Inl e \<Rightarrow>
                  if e = RequestException then Some Request_failed else Some (Raised e)
              | Inr (names, next_url) \<Rightarrow>
                  fetch_pages get next_url (all_tags @ names) (current_page + 1)
                    (if length (all_tags @ names) < 5 \<and> truthy next_url
                     then max_pages + 1 else max_pages)))
      else Some (Fetched all_tags))"

declare fetch_pages.simps [code]

text \<open>The address of the first page; \<open>20\<close> is \<^verbatim>\<open>page_size\<close>.\<close>

definition first_url :: "string \<Rightarrow> string" where
  "first_url repo_name =
     ''https://hub.docker.com/v2/repositories/'' @ repo_name @ ''/tags?page_size=20''"

subsection \<open>\<^verbatim>\<open>get_latest_tag\<close>: choosing the tag\<close>

text \<open>
  The loop of lines 57 to 63: the tags that parse to a \<^verbatim>\<open>Version\<close>, with their keys. A
  candidate that is not a string raises \<^verbatim>\<open>TypeError\<close> in the parser and is passed over
  by the handler of line 62.
\<close>

fun valid_tags :: "(string \<Rightarrow> 'v parsed) \<Rightarrow> pyval list \<Rightarrow> ('v \<times> string) list" where
  "valid_tags parse [] = []"
| "valid_tags parse (VStr tag # rest) =
     (case parse tag of
        Invalid \<Rightarrow> valid_tags parse rest
      | Legacy \<Rightarrow> valid_tags parse rest
      | Version v \<Rightarrow> (v, tag) # valid_tags parse rest)"
| "valid_tags parse (v # rest) = valid_tags parse rest"

text \<open>
  \<^verbatim>\<open>sort(reverse=True)\<close> and \<^verbatim>\<open>sorted(..., reverse=True)\<close>: a stable sort into descending
  order, which Python runs as reverse, sort, reverse. Pairs compare by their first
  component and then by their second, strings lexicographically.
\<close>

definition sort_reverse :: "'a::linorder list \<Rightarrow> 'a list" where
  "sort_reverse xs = rev (sort (rev xs))"

text \<open>The strings of a list of values, when all of them are strings.\<close>

fun strings_of :: "pyval list \<Rightarrow> string list option" where
  "strings_of [] = Some []"
| "strings_of (VStr s # rest) = map_option ((#) s) (strings_of rest)"
| "strings_of (v # rest) = None"

text \<open>\<^verbatim>\<open>xs[0]\<close>\<close>

fun first :: "'a list \<Rightarrow> exn + 'a" where
  "first [] = Inl IndexError"
| "first (x # _) = Inr x"

text \<open>\<^verbatim>\<open>sorted(all_tags, reverse=True)[0]\<close> on a list that is not empty.\<close>

definition sorted_first :: "'v world \<Rightarrow> pyval list \<Rightarrow> exn + pyval" where
  "sorted_first w all_tags =
     (case strings_of all_tags of
        Some tags \<Rightarrow>
          (case first (sort_reverse tags) of Inl e \<Rightarrow> Inl e | Inr tag \<Rightarrow> Inr (VStr tag))
      | None \<Rightarrow>
          (case first_other w all_tags of
             Inl e \<Rightarrow> Inl e
           | Inr i \<Rightarrow> Inr (all_tags ! (i mod length all_tags))))"

text \<open>
  The body of the \<^verbatim>\<open>try\<close> of lines 54 to 71, with the log records it writes: what it
  returns (\<open>VNone\<close> for \<^verbatim>\<open>None\<close>) or the exception it raises.
\<close>

definition choose_tag ::
  "'v::linorder world \<Rightarrow> string \<Rightarrow> pyval list \<Rightarrow> (exn + pyval) \<times> event list"
where
  "choose_tag w repo_name all_tags =
     (let valid = valid_tags (version_parse w) all_tags in
      if valid \<noteq> [] then
        (case first (sort_reverse valid) of
           Inl e \<Rightarrow> (Inl e, [])
         | Inr (v, tag) \<Rightarrow> (Inr (VStr tag), []))
      else
        (if all_tags \<noteq> [] then
           (case sorted_first w all_tags of
              Inl e \<Rightarrow> (Inl e, [No_semantic_versions repo_name])
            | Inr tag \<Rightarrow> (Inr tag, [No_semantic_versions repo_name]))
         else (Inr VNone, [No_semantic_versions repo_name])))"

text \<open>
  The function: the value and the log records of a call that returns or raises, and
  \<open>None\<close> when the paging loop never ends. \<open>Inl e\<close> is an exception that leaves the
  function, \<open>Inr VNone\<close> is the return value \<^verbatim>\<open>None\<close>.
\<close>

definition get_latest_tag ::
  "'v::linorder world \<Rightarrow> string \<Rightarrow> ((exn + pyval) \<times> event list) option"
where
  "get_latest_tag w repo_name =
     (case fetch_pages (requests_get w) (VStr (first_url repo_name)) [] 0 1 of
        None \<Rightarrow> None
      | Some Request_failed \<Rightarrow> Some (Inr VNone, [Error_fetching repo_name RequestException])
      | Some (Raised e) \<Rightarrow> Some (Inl e, [])
      | Some (Fetched all_tags) \<Rightarrow>
          (case choose_tag w repo_name all_tags of
             (Inl e, logged) \<Rightarrow>
               Some (Inr VNone,
                 Found_tags (length all_tags) repo_name # logged @ [Error_sorting repo_name e])
           | (Inr tag, logged) \<Rightarrow>
               Some (Inr tag, Found_tags (length all_tags) repo_name # logged)))"

subsection \<open>\<^verbatim>\<open>update_config_files\<close>\<close>

text \<open>
  The state of a run: the contents of the files by path (\<open>None\<close> for a path that cannot be
  opened for reading), the two counters and the log records written so far.
\<close>

record state =
  disk :: "string \<rightharpoonup> string"
  updated_count :: nat
  error_count :: nat
  log :: "event list"

definition logging :: "event list \<Rightarrow> state \<Rightarrow> state" where
  "logging es st = st\<lparr>log := log st @ es\<rparr>"

text \<open>\<^verbatim>\<open>os.path.join(root, file)\<close> for a file name without a slash.\<close>

definition path_join :: "string \<Rightarrow> string \<Rightarrow> string" where
  "path_join root file =
     (if root = [] then file
      else if last root = CHR ''/'' then root @ file
      else root @ ''/'' @ file)"

text \<open>
  The image value as the f-string of line 26 formats it: a string is itself, another
  value is what \<^verbatim>\<open>str\<close> makes of it.
\<close>

fun repo_name_of :: "'v world \<Rightarrow> pyval \<Rightarrow> string" where
  "repo_name_of w (VStr s) = s"
| "repo_name_of w v = format_value w v"

text \<open>\<^verbatim>\<open>config.get('version')\<close> on the loaded dictionary.\<close>

definition version_of :: "(pyval \<times> pyval) list \<Rightarrow> pyval" where
  "version_of config = (case map_of config (VStr ''version'') of None \<Rightarrow> VNone | Some v \<Rightarrow> v)"

text \<open>\<^verbatim>\<open>current_version != latest_tag\<close>: only a string equals a string.\<close>

fun differs :: "'v world \<Rightarrow> pyval \<Rightarrow> pyval \<Rightarrow> bool" where
  "differs w current_version (VStr tag) = (current_version \<noteq> VStr tag)"
| "differs w current_version latest_tag = (\<not> equal_other w current_version latest_tag)"

text \<open>
  Lines 100 to 115, once \<^verbatim>\<open>get_latest_tag\<close> has returned \<open>latest_tag\<close>. Opening the file
  for writing raises \<^verbatim>\<open>OSError\<close> when the path is not writable; the dumper cannot fail
  on a value the loader produced.
\<close>

definition apply_latest ::
  "'v world \<Rightarrow> string \<Rightarrow> (pyval \<times> pyval) list \<Rightarrow> pyval \<Rightarrow> pyval \<Rightarrow> state
     \<Rightarrow> (exn + unit) \<times> state"
where
  "apply_latest w file_path config image_value latest_tag st =
     (if truthy latest_tag then
        let st1 = logging [Latest_version image_value latest_tag] st;
            current_version = version_of config
        in
          if differs w current_version latest_tag then
            let st2 = logging [Updating file_path current_version latest_tag] st1;
                config' = AList.update (VStr ''version'') latest_tag config
            in
              if writable w file_path then
                (Inr (), st2\<lparr>disk := (disk st2)(file_path \<mapsto> dump w config'),
                            updated_count := updated_count st2 + 1\<rparr>)
              else (Inl OSError, st2)
          else (Inr (), logging [Already_latest file_path current_version] st1)
      else (Inr (), logging [Could_not_determine image_value] st))"

text \<open>
  The body of the \<^verbatim>\<open>try\<close> of lines 87 to 115 for one file: how it ends (\<open>Inl e\<close> for an
  exception) and the state it leaves. \<open>None\<close> is a call of \<^verbatim>\<open>get_latest_tag\<close> that never
  returns.
\<close>

definition try_file ::
  "'v::linorder world \<Rightarrow> string \<Rightarrow> state \<Rightarrow> ((exn + unit) \<times> state) option"
where
  "try_file w file_path st =
     (case disk st file_path of
        None \<Rightarrow> Some (Inl OSError, st)
      | Some content \<Rightarrow>
          (case safe_load w content of
             Inl e \<Rightarrow> Some (Inl e, st)
           | Inr (VDict config) \<Rightarrow>
               (case map_of config (VStr ''image'') of
                  None \<Rightarrow> Some (Inr (), st)
                | Some image_value \<Rightarrow>
                    (case get_latest_tag w (repo_name_of w image_value) of
                       None \<Rightarrow> None
                     | Some (Inl e, logged) \<Rightarrow>
                         Some (Inl e, logging (Processing file_path image_value # logged) st)
                     | Some (Inr latest_tag, logged) \<Rightarrow>
                         Some (apply_latest w file_path config image_value latest_tag
                                 (logging (Processing file_path image_value # logged) st))))
           | Inr _ \<Rightarrow> Some (Inr (), logging [Skipping_not_dict file_path] st)))"

text \<open>One round of the inner loop for a file named \<^verbatim>\<open>config.yaml\<close>, with the handler of line 116.\<close>

definition process_file :: "'v::linorder world \<Rightarrow> string \<Rightarrow> state \<Rightarrow> state option" where
  "process_file w file_path st =
     (case try_file w file_path st of
        None \<Rightarrow> None
      | Some (Inl e, st') \<Rightarrow>
          Some ((logging [Error_processing file_path e] st')\<lparr>error_count := error_count st' + 1\<rparr>)
      | Some (Inr _, st') \<Rightarrow> Some st')"

text \<open>The loop over the files of one directory and the loop over the walk.\<close>

fun for_files :: "'v::linorder world \<Rightarrow> string \<Rightarrow> string list \<Rightarrow> state \<Rightarrow> state option" where
  "for_files w root [] st = Some st"
| "for_files w root (file # files) st =
     (if file = ''config.yaml'' then
        (case process_file w (path_join root file) st of
           None \<Rightarrow> None
         | Some st' \<Rightarrow> for_files w root files st')
      else for_files w root files st)"

fun for_walk ::
  "'v::linorder world \<Rightarrow> (string \<times> string list \<times> string list) list \<Rightarrow> state \<Rightarrow> state option"
where
  "for_walk w [] st = Some st"
| "for_walk w ((root, dirs, files) # rest) st =
     (case for_files w root files st of
        None \<Rightarrow> None
      | Some st' \<Rightarrow> for_walk w rest st')"

definition initial :: "(string \<rightharpoonup> string) \<Rightarrow> state" where
  "initial fs = \<lparr>disk = fs, updated_count = 0, error_count = 0, log = []\<rparr>"

text \<open>
  The function on a file system \<open>fs\<close>: the pair it returns and the state the run leaves,
  or \<open>None\<close> when the run never ends.
\<close>

definition update_config_files ::
  "'v::linorder world \<Rightarrow> string \<Rightarrow> (string \<rightharpoonup> string) \<Rightarrow> ((nat \<times> nat) \<times> state) option"
where
  "update_config_files w directory fs =
     (case for_walk w (os_walk w directory) (initial fs) of
        None \<Rightarrow> None
      | Some st \<Rightarrow> Some ((updated_count st, error_count st), st))"


subsection \<open>The requests of a call\<close>

text \<open>
  The addresses that the paging loop asks for when it starts in a given state: the
  address it holds, and those it comes to after pages that were read without an
  exception.
\<close>

inductive requested ::
  "(pyval \<Rightarrow> response) \<Rightarrow> pyval \<Rightarrow> pyval list \<Rightarrow> nat \<Rightarrow> nat \<Rightarrow> pyval \<Rightarrow> bool"
  for get :: "pyval \<Rightarrow> response"
where
  now: "truthy tags_url \<Longrightarrow> current_page < max_pages
        \<Longrightarrow> requested get tags_url all_tags current_page max_pages tags_url"
| later: "truthy tags_url \<Longrightarrow> current_page < max_pages
        \<Longrightarrow> get tags_url = Json data
        \<Longrightarrow> read_page data = Inr (names, next_url)
        \<Longrightarrow> requested get next_url (all_tags @ names) (current_page + 1)
              (if length (all_tags @ names) < 5 \<and> truthy next_url
               then max_pages + 1 else max_pages) url
        \<Longrightarrow> requested get tags_url all_tags current_page max_pages url"

text \<open>The addresses that \<^verbatim>\<open>get_latest_tag(repo_name)\<close> asks for.\<close>

definition asks :: "'v world \<Rightarrow> string \<Rightarrow> pyval \<Rightarrow> bool" where
  "asks w repo_name url \<longleftrightarrow>
     requested (requests_get w) (VStr (first_url repo_name)) [] 0 1 url"

subsection \<open>Example environments\<close>

text \<open>An entry of a tag listing, and a page of entries with the address of the next.\<close>

definition named :: "string \<Rightarrow> pyval" where
  "named tag = VDict [(VStr ''name'', VStr tag), (VStr ''tag_status'', VStr ''active'')]"

definition page :: "string list \<Rightarrow> pyval \<Rightarrow> pyval" where
  "page tags next_url = VDict [(VStr ''results'', VList (map named tags)), (VStr ''next'', next_url)]"

text \<open>
  A parser for releases, as the library reads a string of numbers separated by dots:
  the key is the list of the numbers without the zeros at its end, so that \<^verbatim>\<open>1.2\<close> and
  \<^verbatim>\<open>1.2.0\<close> are the same version. Every other string is rejected.
\<close>

fun split_dots :: "string \<Rightarrow> string list" where
  "split_dots [] = [[]]"
| "split_dots (c # cs) =
     (if c = CHR ''.'' then [] # split_dots cs
      else (case split_dots cs of [] \<Rightarrow> [[c]] | seg # segs \<Rightarrow> (c # seg) # segs))"

definition number :: "string \<Rightarrow> nat option" where
  "number s =
     (if str_isdigit s then Some (foldl (\<lambda>n c. 10 * n + (of_char c - 48)) 0 s) else None)"

definition parse_release :: "string \<Rightarrow> nat list parsed" where
  "parse_release tag =
     (case those (map number (split_dots tag)) of
        None \<Rightarrow> Invalid
      | Some release \<Rightarrow> Version (rev (dropWhile (\<lambda>n. n = 0) (rev release))))"

text \<open>A registry with two pages for the image \<^verbatim>\<open>x/y\<close>; it answers for no other address.\<close>

definition hub_example :: "pyval \<Rightarrow> response" where
  "hub_example url =
     (if url = VStr (first_url ''x/y'') then
        Json (page [''1.0.0'', ''latest'', ''1.2''] (VStr ''page2''))
      else if url = VStr ''page2'' then
        Json (page [''1.2.0'', ''build7'', ''stable''] VNone)
      else Raises RequestException)"

text \<open>
  A loader given by a table, a dumper that writes string scalars in flow style, and a
  walk over five directories: a configuration without an image, one that is out of date,
  one that does not parse, an empty one, and one whose image the registry does not
  answer for.
\<close>

definition load_example :: "string \<Rightarrow> exn + pyval" where
  "load_example content =
     (if content = ''{name: demo}'' then Inr (VDict [(VStr ''name'', VStr ''demo'')])
      else if content = ''{image: x/y, version: 1.0.0}'' then
        Inr (VDict [(VStr ''image'', VStr ''x/y''), (VStr ''version'', VStr ''1.0.0'')])
      else if content = ''{image: x/y, version: 1.2.0}'' then
        Inr (VDict [(VStr ''image'', VStr ''x/y''), (VStr ''version'', VStr ''1.2.0'')])
      else if content = ''{image: gone/z}'' then
        Inr (VDict [(VStr ''image'', VStr ''gone/z'')])
      else if content = [] then Inr VNone
      else Inl YAMLError)"

fun scalar :: "pyval \<Rightarrow> string" where
  "scalar (VStr s) = s"
| "scalar v = ''?''"

fun flow :: "(pyval \<times> pyval) list \<Rightarrow> string" where
  "flow [] = []"
| "flow [(k, v)] = scalar k @ '': '' @ scalar v"
| "flow ((k, v) # rest) = scalar k @ '': '' @ scalar v @ '', '' @ flow rest"

definition dump_example :: "(pyval \<times> pyval) list \<Rightarrow> string" where
  "dump_example config = ''{'' @ flow config @ ''}''"

definition walk_example :: "string \<Rightarrow> (string \<times> string list \<times> string list) list" where
  "walk_example directory =
     [(directory, [''a'', ''b'', ''c'', ''d''], [''config.yaml'']),
      (path_join directory ''a'', [], [''config.yaml'', ''notes.txt'']),
      (path_join directory ''b'', [], [''config.yaml'']),
      (path_join directory ''c'', [], [''config.yaml'']),
      (path_join directory ''d'', [], [''config.yaml''])]"

definition fs_example :: "string \<rightharpoonup> string" where
  "fs_example =
     map_of
       [(''./config.yaml'', ''{name: demo}''),
        (''./a/config.yaml'', ''{image: x/y, version: 1.0.0}''),
        (''./a/notes.txt'', ''hello''),
        (''./b/config.yaml'', ''{image''),
        (''./c/config.yaml'', []),
        (''./d/config.yaml'', ''{image: gone/z}'')]"

definition world_example :: "nat list world" where
  "world_example =
     \<lparr>requests_get = hub_example, version_parse = parse_release,
      os_walk = walk_example, safe_load = load_example, dump = dump_example,
      writable = (\<lambda>p. True), format_value = scalar,
      first_other = (\<lambda>xs. Inl TypeError), equal_other = (\<lambda>a b. False)\<rparr>"

text \<open>The mapping of the configuration that is out of date.\<close>

definition config_example :: "(pyval \<times> pyval) list" where
  "config_example = [(VStr ''image'', VStr ''x/y''), (VStr ''version'', VStr ''1.0.0'')]"

text \<open>The same environment with files that cannot be opened for writing.\<close>

definition world_readonly :: "nat list world" where
  "world_readonly = world_example\<lparr>writable := (\<lambda>p. False)\<rparr>"

text \<open>
  Registries with one page: the candidates \<^verbatim>\<open>9\<close> and \<^verbatim>\<open>10\<close>; candidates that are no
  versions, beside a tag without a digit; and two tags of one version below a greater
  version.
\<close>

definition hub_nine_ten :: "pyval \<Rightarrow> response" where
  "hub_nine_ten url = Json (page [''9'', ''10''] VNone)"

definition hub_builds :: "pyval \<Rightarrow> response" where
  "hub_builds url = Json (page [''build9'', ''latest'', ''build10''] VNone)"

definition hub_tied_below :: "pyval \<Rightarrow> response" where
  "hub_tied_below url = Json (page [''1.0'', ''2.0'', ''1.0.0''] VNone)"

definition world_nine_ten :: "nat list world" where
  "world_nine_ten = world_example\<lparr>requests_get := hub_nine_ten\<rparr>"

definition world_builds :: "nat list world" where
  "world_builds = world_example\<lparr>requests_get := hub_builds\<rparr>"

definition world_tied_below :: "nat list world" where
  "world_tied_below = world_example\<lparr>requests_get := hub_tied_below\<rparr>"

text \<open>
  A registry that never runs out of pages and never shows a tag with a digit, one whose
  second page cannot be fetched, and three with a malformed body: an entry without a
  \<^verbatim>\<open>name\<close>, \<^verbatim>\<open>results\<close> that is \<^verbatim>\<open>null\<close>, and a body that is a list.
\<close>

definition hub_endless :: "pyval \<Rightarrow> response" where
  "hub_endless url = Json (page [''latest''] (VStr ''more''))"

definition hub_failing :: "pyval \<Rightarrow> response" where
  "hub_failing url =
     (if url = VStr (first_url ''x/y'') then Json (page [''1.0.0''] (VStr ''gone''))
      else Raises RequestException)"

definition hub_nameless :: "pyval \<Rightarrow> response" where
  "hub_nameless url =
     Json (VDict [(VStr ''results'', VList [VDict [(VStr ''digest'', VStr ''ab'')]]),
                  (VStr ''next'', VNone)])"

definition hub_null_results :: "pyval \<Rightarrow> response" where
  "hub_null_results url = Json (VDict [(VStr ''results'', VNone), (VStr ''next'', VNone)])"

definition hub_list_body :: "pyval \<Rightarrow> response" where
  "hub_list_body url = Json (VList [])"

definition world_endless :: "nat list world" where
  "world_endless = world_example\<lparr>requests_get := hub_endless\<rparr>"

definition world_failing :: "nat list world" where
  "world_failing = world_example\<lparr>requests_get := hub_failing\<rparr>"

definition world_nameless :: "nat list world" where
  "world_nameless = world_example\<lparr>requests_get := hub_nameless\<rparr>"

definition world_null_results :: "nat list world" where
  "world_null_results = world_example\<lparr>requests_get := hub_null_results\<rparr>"

definition world_list_body :: "nat list world" where
  "world_list_body = world_example\<lparr>requests_get := hub_list_body\<rparr>"

text \<open>The states of the paging loop from which the endless registry is asked again.\<close>

definition keeps_paging :: "(pyval \<Rightarrow> response) \<Rightarrow> pyval \<Rightarrow> pyval list \<Rightarrow> nat \<Rightarrow> nat \<Rightarrow> bool" where
  "keeps_paging get tags_url all_tags current_page max_pages \<longleftrightarrow>
     get = hub_endless \<and> truthy tags_url \<and> all_tags = [] \<and> current_page < max_pages"

section \<open>Properties of \<^verbatim>\<open>get_latest_tag\<close>\<close>

subsection \<open>Sorting and the valid tags\<close>

lemma first_sort_reverse:
  assumes "xs \<noteq> []"
  shows "first (sort_reverse xs) = Inr (Max (set xs))"
proof -
  define ys where "ys = sort (rev xs)"
  have s: "sorted ys" and st: "set ys = set xs"
    by (simp_all add: ys_def)
  have "ys \<noteq> []" using assms st by auto
  then obtain zs z where ys: "ys = zs @ [z]"
    by (metis rev_exhaust)
  have "\<forall>x\<in>set ys. x \<le> z" using s unfolding ys by (auto simp: sorted_append)
  moreover have "z \<in> set ys" by (simp add: ys)
  ultimately have "Max (set ys) = z" by (intro Max_eqI) auto
  then show ?thesis unfolding sort_reverse_def ys_def[symmetric] ys st[symmetric] by simp
qed

lemma set_valid_tags:
  "set (valid_tags parse ts) = {(v, t). VStr t \<in> set ts \<and> parse t = Version v}"
  by (induction parse ts rule: valid_tags.induct) (auto split: parsed.splits)

lemma strings_of_map: "strings_of (map VStr tags) = Some tags"
  by (induction tags) simp_all

lemma strings_of_Some: "strings_of ts = Some tags \<Longrightarrow> ts = map VStr tags"
  by (induction ts arbitrary: tags rule: strings_of.induct) auto

lemma choose_tag_valid:
  assumes "valid_tags (version_parse w) ts \<noteq> []"
  shows "choose_tag w r ts
           = (Inr (VStr (snd (Max (set (valid_tags (version_parse w) ts))))), [])"
  using assms by (simp add: choose_tag_def first_sort_reverse split: prod.splits)

lemma choose_tag_fallback:
  assumes "valid_tags (version_parse w) (map VStr tags) = []" and "tags \<noteq> []"
  shows "choose_tag w r (map VStr tags)
           = (Inr (VStr (Max (set tags))), [No_semantic_versions r])"
  using assms
  by (simp add: choose_tag_def sorted_first_def strings_of_map first_sort_reverse)

lemma get_latest_tag_fetched:
  assumes "fetch_pages (requests_get w) (VStr (first_url r)) [] 0 1 = Some (Fetched ts)"
    and "choose_tag w r ts = (Inr res, logged)"
  shows "get_latest_tag w r = Some (Inr res, Found_tags (length ts) r # logged)"
  using assms by (simp add: get_latest_tag_def)

lemma Max_valid_tags:
  assumes "valid_tags parse ts \<noteq> []"
  shows "\<exists>v t. Max (set (valid_tags parse ts)) = (v, t) \<and> VStr t \<in> set ts \<and> parse t = Version v
     \<and> (\<forall>t' v'. VStr t' \<in> set ts \<and> parse t' = Version v' \<longrightarrow> (v', t') \<le> (v, t))"
proof -
  let ?S = "set (valid_tags parse ts)"
  have fin: "finite ?S" and ne: "?S \<noteq> {}" using assms by auto
  obtain v t where m: "Max ?S = (v, t)" by (cases "Max ?S")
  have "(v, t) \<in> ?S" using Max_in [OF fin ne] m by simp
  then have mem: "VStr t \<in> set ts \<and> parse t = Version v"
    by (simp add: set_valid_tags)
  have "(v', t') \<le> (v, t)" if "VStr t' \<in> set ts" "parse t' = Version v'" for t' v'
  proof -
    have "(v', t') \<in> ?S" using that by (simp add: set_valid_tags)
    then show ?thesis using Max_ge [OF fin, of "(v', t')"] m by simp
  qed
  with m mem show ?thesis by blast
qed

subsection \<open>Reading a page\<close>

lemma any_isdigit_Inl: "any_isdigit cs = Inl e \<Longrightarrow> e = AttributeError"
  by (induction cs rule: any_isdigit.induct) (auto split: if_splits)

lemma has_digit_Inl: "has_digit v = Inl e \<Longrightarrow> e = TypeError \<or> e = AttributeError"
  by (cases v) (auto simp: has_digit_def dest: any_isdigit_Inl)

lemma getitem_Inl: "getitem v key = Inl e \<Longrightarrow> e = KeyError \<or> e = TypeError"
  by (cases v) (auto split: option.splits)

lemma digit_names_Inl:
  "digit_names ts = Inl e \<Longrightarrow> e = KeyError \<or> e = TypeError \<or> e = AttributeError"
proof (induction ts)
  case Nil
  then show ?case by simp
next
  case (Cons t ts)
  then show ?case
    by (auto split: sum.splits dest: getitem_Inl has_digit_Inl)
qed

lemma dict_get_Inl: "dict_get v key dflt = Inl e \<Longrightarrow> e = AttributeError"
  by (cases v) auto

lemma iterate_Inl: "iterate v = Inl e \<Longrightarrow> e = TypeError"
  by (cases v) auto

lemma read_page_Inl:
  assumes "read_page data = Inl e"
  shows "e = KeyError \<or> e = TypeError \<or> e = AttributeError"
  using assms
  by (auto simp: read_page_def split: sum.splits
      dest: dict_get_Inl iterate_Inl digit_names_Inl)

lemma read_page_not_request: "read_page data = Inl e \<Longrightarrow> e \<noteq> RequestException"
  by (auto dest: read_page_Inl)

lemma digit_names_kept:
  "digit_names ts = Inr names \<Longrightarrow> \<forall>name\<in>set names. has_digit name = Inr True"
  by (induction ts arbitrary: names) (auto split: sum.splits if_splits)

lemma read_page_kept:
  "read_page data = Inr (names, next_url) \<Longrightarrow> \<forall>name\<in>set names. has_digit name = Inr True"
  by (auto simp: read_page_def split: sum.splits dest: digit_names_kept)

lemma any_isdigit_chars: "any_isdigit (map (\<lambda>c. VStr [c]) s) = Inr (list_ex isdigit s)"
  by (induction s) (simp_all add: str_isdigit_def)

lemma has_digit_VStr: "has_digit (VStr s) = Inr (list_ex isdigit s)"
  by (simp add: has_digit_def any_isdigit_chars)

lemma any_isdigit_nonempty: "any_isdigit cs = Inr True \<Longrightarrow> cs \<noteq> []"
  by auto

lemma has_digit_truthy: "has_digit v = Inr True \<Longrightarrow> truthy v"
  by (cases v) (auto simp: has_digit_def dest: any_isdigit_nonempty)

lemma fetch_pages_has_digit:
  assumes "fetch_pages get tags_url all_tags current_page max_pages = Some y"
  shows "(\<forall>t\<in>set all_tags. has_digit t = Inr True) \<longrightarrow>
         (\<forall>ts. y = Fetched ts \<longrightarrow> (\<forall>t\<in>set ts. has_digit t = Inr True))"
proof (rule fetch_pages.raw_induct
    [where P = "\<lambda>get tags_url all_tags current_page max_pages y.
       (\<forall>t\<in>set all_tags. has_digit t = Inr True) \<longrightarrow>
       (\<forall>ts. y = Fetched ts \<longrightarrow> (\<forall>t\<in>set ts. has_digit t = Inr True))",
     OF _ assms], goal_cases)
  case (1 loop get tags_url all_tags current_page max_pages y)
  show ?case
  proof (intro allI impI)
    fix ts assume inv: "\<forall>t\<in>set all_tags. has_digit t = Inr True" and y: "y = Fetched ts"
    show "\<forall>t\<in>set ts. has_digit t = Inr True"
    proof (cases "truthy tags_url \<and> current_page < max_pages")
      case False
      with 1(2) y have "ts = all_tags" by (auto split: if_splits)
      with inv show ?thesis by simp
    next
      case True
      with 1(2) y obtain data names next_url where d: "get tags_url = Json data"
        and n: "read_page data = Inr (names, next_url)"
        and r: "loop get next_url (all_tags @ names) (current_page + 1)
                (if length (all_tags @ names) < 5 \<and> truthy next_url
                 then max_pages + 1 else max_pages) = Some y"
        by (auto split: response.splits sum.splits if_splits)
      from read_page_kept [OF n] inv
      have "\<forall>t\<in>set (all_tags @ names). has_digit t = Inr True" by auto
      with 1(1) [OF r] y show ?thesis by blast
    qed
  qed
qed

lemma requested_failed:
  assumes "requested get tags_url all_tags current_page max_pages url"
    and "get url = Raises RequestException"
  shows "fetch_pages get tags_url all_tags current_page max_pages = Some Request_failed"
  using assms
proof (induction rule: requested.induct)
  case (now tags_url current_page max_pages all_tags)
  then show ?case by (subst fetch_pages.simps) simp
next
  case (later tags_url current_page max_pages data names next_url all_tags url)
  from later.IH [OF later.prems] later.hyps(1-4)
  show ?case by (subst fetch_pages.simps) simp
qed

lemma requested_raised:
  assumes "requested get tags_url all_tags current_page max_pages url"
    and "get url = Raises e" and "e \<noteq> RequestException"
  shows "fetch_pages get tags_url all_tags current_page max_pages = Some (Raised e)"
  using assms
proof (induction rule: requested.induct)
  case (now tags_url current_page max_pages all_tags)
  then show ?case by (subst fetch_pages.simps) simp
next
  case (later tags_url current_page max_pages data names next_url all_tags url)
  from later.IH [OF later.prems] later.hyps(1-4)
  show ?case by (subst fetch_pages.simps) simp
qed

lemma requested_malformed:
  assumes "requested get tags_url all_tags current_page max_pages url"
    and "get url = Json data" and "read_page data = Inl e"
  shows "fetch_pages get tags_url all_tags current_page max_pages = Some (Raised e)"
  using assms
proof (induction rule: requested.induct)
  case (now tags_url current_page max_pages all_tags)
  from read_page_not_request [OF now.prems(2)] now
  show ?case by (subst fetch_pages.simps) simp
next
  case (later tags_url current_page max_pages data' names next_url all_tags url)
  from later.IH [OF later.prems] later.hyps(1-4)
  show ?case by (subst fetch_pages.simps) simp
qed

subsection \<open>The paging loop and the requests it makes\<close>

lemma fetch_pages_cases:
  assumes "fetch_pages get tags_url all_tags current_page max_pages = Some y"
  shows "(y = Request_failed \<longrightarrow>
            (\<exists>url. requested get tags_url all_tags current_page max_pages url
                 \<and> get url = Raises RequestException))
       \<and> (\<forall>e. y = Raised e \<longrightarrow>
            (\<exists>url. requested get tags_url all_tags current_page max_pages url
                 \<and> (get url = Raises e \<and> e \<noteq> RequestException
                      \<or> (\<exists>data. get url = Json data \<and> read_page data = Inl e))))"
proof (rule fetch_pages.raw_induct
    [where P = "\<lambda>get tags_url all_tags current_page max_pages y.
       (y = Request_failed \<longrightarrow>
            (\<exists>url. requested get tags_url all_tags current_page max_pages url
                 \<and> get url = Raises RequestException))
       \<and> (\<forall>e. y = Raised e \<longrightarrow>
            (\<exists>url. requested get tags_url all_tags current_page max_pages url
                 \<and> (get url = Raises e \<and> e \<noteq> RequestException
                      \<or> (\<exists>data. get url = Json data \<and> read_page data = Inl e))))",
     OF _ assms], goal_cases)
  case (1 loop get tags_url all_tags current_page max_pages y)
  show ?case
  proof (cases "truthy tags_url \<and> current_page < max_pages")
    case False
    with 1(2) have "\<exists>ts. y = Fetched ts" by (auto split: if_splits)
    then show ?thesis by auto
  next
    case go: True
    then have here: "requested get tags_url all_tags current_page max_pages tags_url"
      by (auto intro: requested.now)
    show ?thesis
    proof (cases "get tags_url")
      case (Raises e')
      with 1(2) go have "y = (if e' = RequestException then Request_failed else Raised e')"
        by (auto split: if_splits)
      with here Raises show ?thesis by (auto split: if_splits)
    next
      case (Json data)
      show ?thesis
      proof (cases "read_page data")
        case (Inl e')
        from read_page_not_request [OF Inl] 1(2) go Json Inl have "y = Raised e'" by simp
        with here Json Inl show ?thesis by auto
      next
        case (Inr p)
        obtain names next_url where p: "p = (names, next_url)" by (cases p)
        let ?mp = "if length (all_tags @ names) < 5 \<and> truthy next_url
                   then max_pages + 1 else max_pages"
        from 1(2) go Json Inr p
        have r: "loop get next_url (all_tags @ names) (current_page + 1) ?mp = Some y"
          by simp
        have step: "requested get tags_url all_tags current_page max_pages url"
          if "requested get next_url (all_tags @ names) (current_page + 1) ?mp url" for url
          using go Json Inr p that by (auto intro: requested.later)
        from 1(1) [OF r] step show ?thesis by blast
      qed
    qed
  qed
qed

lemma fetch_pages_no_candidates:
  assumes "fetch_pages get tags_url all_tags current_page max_pages = Some y"
  shows "(\<forall>url data names next_url.
            requested get tags_url all_tags current_page max_pages url
            \<and> get url = Json data \<and> read_page data = Inr (names, next_url) \<longrightarrow> names = [])
         \<longrightarrow> (\<forall>ts. y = Fetched ts \<longrightarrow> ts = all_tags)"
proof (rule fetch_pages.raw_induct
    [where P = "\<lambda>get tags_url all_tags current_page max_pages y.
       (\<forall>url data names next_url.
            requested get tags_url all_tags current_page max_pages url
            \<and> get url = Json data \<and> read_page data = Inr (names, next_url) \<longrightarrow> names = [])
         \<longrightarrow> (\<forall>ts. y = Fetched ts \<longrightarrow> ts = all_tags)",
     OF _ assms], goal_cases)
  case (1 loop get tags_url all_tags current_page max_pages y)
  show ?case
  proof (intro allI impI)
    fix ts
    assume none: "\<forall>url data names next_url.
            requested get tags_url all_tags current_page max_pages url
            \<and> get url = Json data \<and> read_page data = Inr (names, next_url) \<longrightarrow> names = []"
      and y: "y = Fetched ts"
    show "ts = all_tags"
    proof (cases "truthy tags_url \<and> current_page < max_pages")
      case False
      with 1(2) y show ?thesis by (auto split: if_splits)
    next
      case go: True
      then have here: "requested get tags_url all_tags current_page max_pages tags_url"
        by (auto intro: requested.now)
      from 1(2) y go obtain data names next_url where d: "get tags_url = Json data"
        and n: "read_page data = Inr (names, next_url)"
        and r: "loop get next_url (all_tags @ names) (current_page + 1)
                (if length (all_tags @ names) < 5 \<and> truthy next_url
                 then max_pages + 1 else max_pages) = Some y"
        by (auto split: response.splits sum.splits if_splits)
      from none here d n have e: "names = []" by blast
      have "\<forall>url data names' next_url'.
            requested get next_url (all_tags @ names) (current_page + 1)
                (if length (all_tags @ names) < 5 \<and> truthy next_url
                 then max_pages + 1 else max_pages) url
            \<and> get url = Json data \<and> read_page data = Inr (names', next_url') \<longrightarrow> names' = []"
        using none go d n by (blast intro: requested.later)
      with 1(1) [OF r] y e show ?thesis by simp
    qed
  qed
qed

lemma read_page_endless:
  "read_page (page [''latest''] (VStr ''more'')) = Inr ([], VStr ''more'')"
  by code_simp

lemma fetch_pages_endless:
  assumes "fetch_pages get tags_url all_tags current_page max_pages = Some y"
  shows "\<not> keeps_paging get tags_url all_tags current_page max_pages"
proof (rule fetch_pages.raw_induct
    [where P = "\<lambda>get tags_url all_tags current_page max_pages y.
                  \<not> keeps_paging get tags_url all_tags current_page max_pages", OF _ assms],
    goal_cases)
  case (1 loop get tags_url all_tags current_page max_pages y)
  show ?case
  proof
    assume inv: "keeps_paging get tags_url all_tags current_page max_pages"
    from 1(2) inv
    have "loop hub_endless (VStr ''more'') [] (current_page + 1) (max_pages + 1) = Some y"
      by (simp add: keeps_paging_def hub_endless_def read_page_endless)
    from 1(1) [OF this] inv show False by (simp add: keeps_paging_def)
  qed
qed

lemma choose_tag_member:
  assumes "choose_tag w r ts = (Inr v, logged)"
  shows "v = VNone \<or> v \<in> set ts"
proof (cases "valid_tags (version_parse w) ts = []")
  case False
  from Max_valid_tags [OF False] obtain u t where
    m: "Max (set (valid_tags (version_parse w) ts)) = (u, t)" and t: "VStr t \<in> set ts" by blast
  from choose_tag_valid [OF False] assms m have "v = VStr t" by simp
  with t show ?thesis by simp
next
  case True
  show ?thesis
  proof (cases "ts = []")
    case True
    with assms \<open>valid_tags (version_parse w) ts = []\<close> show ?thesis
      by (simp add: choose_tag_def)
  next
    case ne: False
    with assms True have s: "sorted_first w ts = Inr v"
      by (auto simp: choose_tag_def split: sum.splits)
    show ?thesis
    proof (cases "strings_of ts")
      case None
      with s obtain i where "v = ts ! (i mod length ts)"
        by (auto simp: sorted_first_def split: sum.splits)
      with ne show ?thesis by simp
    next
      case (Some tags)
      from strings_of_Some [OF Some] ne have tne: "tags \<noteq> []" and ts: "ts = map VStr tags"
        by auto
      from s Some first_sort_reverse [OF tne] have "v = VStr (Max (set tags))"
        by (simp add: sorted_first_def)
      moreover have "Max (set tags) \<in> set tags" using tne by simp
      ultimately show ?thesis using ts by auto
    qed
  qed
qed

lemma get_latest_tag_has_digit:
  assumes "get_latest_tag w r = Some (Inr v, logged)"
  shows "v = VNone \<or> has_digit v = Inr True"
proof -
  from assms obtain y where
    f: "fetch_pages (requests_get w) (VStr (first_url r)) [] 0 1 = Some y"
    by (auto simp: get_latest_tag_def split: option.splits)
  show ?thesis
  proof (cases y)
    case (Fetched ts)
    from fetch_pages_has_digit [OF f] Fetched have d: "\<forall>t\<in>set ts. has_digit t = Inr True"
      by simp
    obtain res lg where c: "choose_tag w r ts = (res, lg)" by (cases "choose_tag w r ts")
    show ?thesis
    proof (cases res)
      case (Inl e)
      with assms f Fetched c show ?thesis by (simp add: get_latest_tag_def)
    next
      case (Inr v')
      with assms f Fetched c have "v' = v" by (simp add: get_latest_tag_def)
      with choose_tag_member [of w r ts v lg] c Inr d show ?thesis by auto
    qed
  next
    case Request_failed
    with assms f show ?thesis by (simp add: get_latest_tag_def)
  next
    case (Raised e)
    with assms f show ?thesis by (simp add: get_latest_tag_def)
  qed
qed

lemma get_latest_tag_nonempty:
  assumes "get_latest_tag w r = Some (Inr (VStr T), logged)"
  shows "list_ex isdigit T" and "T \<noteq> []"
proof -
  from get_latest_tag_has_digit [OF assms] show "list_ex isdigit T"
    by (simp add: has_digit_VStr)
  then show "T \<noteq> []" by auto
qed

lemma asks_first: "asks w r (VStr (first_url r))"
  unfolding asks_def by (rule requested.now) (simp_all add: first_url_def)

lemma read_page_failing:
  "read_page (page [''1.0.0''] (VStr ''gone'')) = Inr ([VStr ''1.0.0''], VStr ''gone'')"
  by code_simp

lemma asks_failing: "asks world_failing ''x/y'' (VStr ''gone'')"
  unfolding asks_def
proof (rule requested.later [where data = "page [''1.0.0''] (VStr ''gone'')"
      and names = "[VStr ''1.0.0'']" and next_url = "VStr ''gone''"])
  show "truthy (VStr (first_url ''x/y''))" by (simp add: first_url_def)
  show "(0::nat) < 1" by simp
  show "requests_get world_failing (VStr (first_url ''x/y'')) = Json (page [''1.0.0''] (VStr ''gone''))"
    by (simp add: world_failing_def hub_failing_def)
  show "read_page (page [''1.0.0''] (VStr ''gone'')) = Inr ([VStr ''1.0.0''], VStr ''gone'')"
    by (rule read_page_failing)
  show "requested (requests_get world_failing) (VStr ''gone'') ([] @ [VStr ''1.0.0'']) (0 + 1)
     (if length ([] @ [VStr ''1.0.0'']) < 5 \<and> truthy (VStr ''gone'') then 1 + 1 else 1)
     (VStr ''gone'')"
    by (rule requested.now) simp_all
qed

subsection \<open>The examples\<close>

lemma fetched_example:
  "fetch_pages (requests_get world_example) (VStr (first_url ''x/y'')) [] 0 1
     = Some (Fetched [VStr ''1.0.0'', VStr ''1.2'', VStr ''1.2.0'', VStr ''build7''])"
  by code_simp

lemma parse_examples:
  "parse_release ''1.0.0'' = Version [1]"
  "parse_release ''1.2'' = Version [1, 2]"
  "parse_release ''1.2.0'' = Version [1, 2]"
  "parse_release ''build7'' = Invalid"
  "parse_release ''1.0'' = Version [1]"
  "parse_release ''2.0'' = Version [2]"
  "parse_release ''9'' = Version [9]"
  "parse_release ''10'' = Version [10]"
  "parse_release ''build9'' = Invalid"
  "parse_release ''build10'' = Invalid"
  by code_simp+

subsection \<open>The latest tag\<close>

text \<open>
  Claim C1. When the paging loop ends with the candidates \<open>all_tags\<close> and at least one of
  them parses to a version, \<^verbatim>\<open>get_latest_tag\<close> returns a candidate whose version is the
  greatest of all the versions the candidates parse to. The tag returned does not depend
  on the order of the candidates: any registry that yields a permutation of \<open>all_tags\<close>
  gives the same tag.
\<close>

theorem latest_tag_is_maximum_version:
  assumes fetched: "fetch_pages (requests_get w) (VStr (first_url repo_name)) [] 0 1
                      = Some (Fetched all_tags)"
    and some: "\<exists>tag v. VStr tag \<in> set all_tags \<and> version_parse w tag = Version v"
  shows "\<exists>tag v logged.
           get_latest_tag w repo_name = Some (Inr (VStr tag), logged)
         \<and> VStr tag \<in> set all_tags
         \<and> version_parse w tag = Version v
         \<and> (\<forall>t u. VStr t \<in> set all_tags \<and> version_parse w t = Version u \<longrightarrow> u \<le> v)
         \<and> (\<forall>w' repo' other.
               version_parse w' = version_parse w
             \<and> fetch_pages (requests_get w') (VStr (first_url repo')) [] 0 1 = Some (Fetched other)
             \<and> mset other = mset all_tags
             \<longrightarrow> (\<exists>logged'. get_latest_tag w' repo' = Some (Inr (VStr tag), logged')))"
proof -
  let ?p = "version_parse w"
  have ne: "valid_tags ?p all_tags \<noteq> []"
  proof
    assume "valid_tags ?p all_tags = []"
    then have "set (valid_tags ?p all_tags) = {}" by simp
    with some show False unfolding set_valid_tags by auto
  qed
  from Max_valid_tags [OF ne] obtain v t where
    m: "Max (set (valid_tags ?p all_tags)) = (v, t)"
    and t: "VStr t \<in> set all_tags" "?p t = Version v"
    and ge: "\<forall>t' v'. VStr t' \<in> set all_tags \<and> ?p t' = Version v' \<longrightarrow> (v', t') \<le> (v, t)"
    by blast
  have res: "get_latest_tag w repo_name
               = Some (Inr (VStr t), [Found_tags (length all_tags) repo_name])"
    using get_latest_tag_fetched [OF fetched choose_tag_valid [OF ne]] m by simp
  have maxv: "\<forall>t' u. VStr t' \<in> set all_tags \<and> ?p t' = Version u \<longrightarrow> u \<le> v"
    using ge by (fastforce simp: less_eq_prod_def)
  have indep: "\<exists>logged'. get_latest_tag w' repo' = Some (Inr (VStr t), logged')"
    if p: "version_parse w' = ?p"
      and f: "fetch_pages (requests_get w') (VStr (first_url repo')) [] 0 1 = Some (Fetched other)"
      and perm: "mset other = mset all_tags" for w' :: "'a world" and repo' other
  proof -
    have st: "set other = set all_tags" using perm by (rule mset_eq_setD)
    have eq: "set (valid_tags ?p other) = set (valid_tags ?p all_tags)"
      by (simp add: set_valid_tags st)
    have ne': "valid_tags (version_parse w') other \<noteq> []"
      using ne eq p by (metis set_empty)
    show ?thesis
      using get_latest_tag_fetched [OF f choose_tag_valid [OF ne']] m eq p by simp
  qed
  from res t maxv indep show ?thesis by blast
qed

theorem latest_tag_is_maximum_version_witness:
  "fetch_pages (requests_get world_example) (VStr (first_url ''x/y'')) [] 0 1
     = Some (Fetched [VStr ''1.0.0'', VStr ''1.2'', VStr ''1.2.0'', VStr ''build7''])
   \<and> (\<exists>tag v. VStr tag \<in> set [VStr ''1.0.0'', VStr ''1.2'', VStr ''1.2.0'', VStr ''build7'']
         \<and> version_parse world_example tag = Version v)
   \<and> (\<exists>tag v logged.
           get_latest_tag world_example ''x/y'' = Some (Inr (VStr tag), logged)
         \<and> VStr tag \<in> set [VStr ''1.0.0'', VStr ''1.2'', VStr ''1.2.0'', VStr ''build7'']
         \<and> version_parse world_example tag = Version v
         \<and> (\<forall>t u. VStr t \<in> set [VStr ''1.0.0'', VStr ''1.2'', VStr ''1.2.0'', VStr ''build7'']
                \<and> version_parse world_example t = Version u \<longrightarrow> u \<le> v))"
proof -
  note f = fetched_example
  have "version_parse world_example ''1.0.0'' = Version [1]"
    by (simp add: world_example_def parse_examples)
  then have s: "\<exists>tag v. VStr tag \<in> set [VStr ''1.0.0'', VStr ''1.2'', VStr ''1.2.0'', VStr ''build7'']
         \<and> version_parse world_example tag = Version v"
    by auto
  from latest_tag_is_maximum_version [OF f s] f s show ?thesis by blast
qed

text \<open>
  Claim C2, as stated: the candidates \<^verbatim>\<open>9\<close> and \<^verbatim>\<open>10\<close> both parse to versions, so they
  never reach the fallback, and \<^verbatim>\<open>get_latest_tag\<close> returns \<^verbatim>\<open>10\<close>, not \<^verbatim>\<open>9\<close>.
\<close>

theorem nine_ten_returns_ten:
  "fetch_pages (requests_get world_nine_ten) (VStr (first_url ''x/y'')) [] 0 1
     = Some (Fetched [VStr ''9'', VStr ''10''])
   \<and> version_parse world_nine_ten ''9'' = Version [9]
   \<and> version_parse world_nine_ten ''10'' = Version [10]
   \<and> get_latest_tag world_nine_ten ''x/y'' = Some (Inr (VStr ''10''), [Found_tags 2 ''x/y''])"
  by (intro conjI; code_simp)

text \<open>
  Claim C2, amended. When the paging loop ends with a non-empty list of candidate
  strings none of which parses to a version, \<^verbatim>\<open>get_latest_tag\<close> logs the fallback and
  returns the greatest candidate in the lexicographic order of strings; every candidate
  has a digit. On the page \<^verbatim>\<open>build9\<close>, \<^verbatim>\<open>latest\<close>, \<^verbatim>\<open>build10\<close> that is \<^verbatim>\<open>build9\<close>.
\<close>

theorem fallback_is_string_maximum:
  assumes fetched: "fetch_pages (requests_get w) (VStr (first_url repo_name)) [] 0 1
                      = Some (Fetched (map VStr tags))"
    and none: "\<forall>tag\<in>set tags. \<forall>v. version_parse w tag \<noteq> Version v"
    and some: "tags \<noteq> []"
  shows "get_latest_tag w repo_name =
           Some (Inr (VStr (Max (set tags))),
                 [Found_tags (length tags) repo_name, No_semantic_versions repo_name])
         \<and> Max (set tags) \<in> set tags
         \<and> (\<forall>tag\<in>set tags. tag \<le> Max (set tags))
         \<and> (\<forall>tag\<in>set tags. list_ex isdigit tag)"
proof -
  have "set (valid_tags (version_parse w) (map VStr tags)) = {}"
    unfolding set_valid_tags using none by auto
  then have "valid_tags (version_parse w) (map VStr tags) = []" by simp
  from get_latest_tag_fetched [OF fetched choose_tag_fallback [OF this some]]
  have res: "get_latest_tag w repo_name =
           Some (Inr (VStr (Max (set tags))),
                 [Found_tags (length tags) repo_name, No_semantic_versions repo_name])"
    by simp
  from fetch_pages_has_digit [OF fetched]
  have "\<forall>t\<in>set (map VStr tags). has_digit t = Inr True" by simp
  then have dig: "\<forall>tag\<in>set tags. list_ex isdigit tag"
    by (simp add: has_digit_VStr)
  from res dig some show ?thesis by simp
qed

theorem fallback_is_string_maximum_witness:
  "requests_get world_builds (VStr (first_url ''x/y''))
     = Json (page [''build9'', ''latest'', ''build10''] VNone)
   \<and> fetch_pages (requests_get world_builds) (VStr (first_url ''x/y'')) [] 0 1
       = Some (Fetched (map VStr [''build9'', ''build10'']))
   \<and> version_parse world_builds ''build9'' = Invalid
   \<and> version_parse world_builds ''build10'' = Invalid
   \<and> get_latest_tag world_builds ''x/y'' =
      Some (Inr (VStr ''build9''), [Found_tags 2 ''x/y'', No_semantic_versions ''x/y''])"
proof -
  have g: "requests_get world_builds (VStr (first_url ''x/y''))
     = Json (page [''build9'', ''latest'', ''build10''] VNone)"
    by (simp add: world_builds_def hub_builds_def)
  have f: "fetch_pages (requests_get world_builds) (VStr (first_url ''x/y'')) [] 0 1
       = Some (Fetched (map VStr [''build9'', ''build10'']))"
    by code_simp
  have n: "\<forall>tag\<in>set [''build9'', ''build10'']. \<forall>v. version_parse world_builds tag \<noteq> Version v"
    by (simp add: world_builds_def world_example_def parse_examples)
  have s: "[''build9'', ''build10''] \<noteq> []" by simp
  have m: "Max (set [''build9'', ''build10'']) = ''build9''" by code_simp
  have l: "length [''build9'', ''build10''] = 2" by simp
  have "get_latest_tag world_builds ''x/y'' =
      Some (Inr (VStr ''build9''), [Found_tags 2 ''x/y'', No_semantic_versions ''x/y''])"
    using fallback_is_string_maximum [OF f n s, THEN conjunct1] unfolding m l .
  moreover have "version_parse world_builds ''build9'' = Invalid"
    and "version_parse world_builds ''build10'' = Invalid"
    by (simp_all add: world_builds_def world_example_def parse_examples)
  ultimately show ?thesis using g f by (intro conjI)
qed

text \<open>
  Claim C9, as stated: the candidates \<^verbatim>\<open>1.0\<close> and \<^verbatim>\<open>1.0.0\<close> parse to the same version,
  but beside them \<^verbatim>\<open>2.0\<close> is a greater one, and \<^verbatim>\<open>get_latest_tag\<close> returns \<^verbatim>\<open>2.0\<close>,
  neither of the tied tags.
\<close>

theorem tie_below_maximum:
  "fetch_pages (requests_get world_tied_below) (VStr (first_url ''x/y'')) [] 0 1
     = Some (Fetched [VStr ''1.0'', VStr ''2.0'', VStr ''1.0.0''])
   \<and> version_parse world_tied_below ''1.0'' = Version [1]
   \<and> version_parse world_tied_below ''1.0.0'' = Version [1]
   \<and> ''1.0'' < ''1.0.0''
   \<and> get_latest_tag world_tied_below ''x/y'' = Some (Inr (VStr ''2.0''), [Found_tags 3 ''x/y''])"
  by (intro conjI; code_simp)

text \<open>
  Claim C9, amended. When two distinct candidates \<open>t1 < t2\<close> parse to the same version
  and no candidate has a greater one, \<^verbatim>\<open>get_latest_tag\<close> returns the lexicographically
  greatest of the candidates with that version: never \<open>t1\<close>, and \<open>t2\<close> when the two are
  the only ones tied. The pairs are sorted by version first and by tag string second.
\<close>

theorem equal_versions_tie_break:
  assumes fetched: "fetch_pages (requests_get w) (VStr (first_url repo_name)) [] 0 1
                      = Some (Fetched all_tags)"
    and t1: "VStr t1 \<in> set all_tags" "version_parse w t1 = Version v"
    and t2: "VStr t2 \<in> set all_tags" "version_parse w t2 = Version v"
    and less: "t1 < t2"
    and top: "\<forall>t u. VStr t \<in> set all_tags \<and> version_parse w t = Version u \<longrightarrow> u \<le> v"
  shows "\<exists>tag logged.
           get_latest_tag w repo_name = Some (Inr (VStr tag), logged)
         \<and> version_parse w tag = Version v
         \<and> tag = Max {t. VStr t \<in> set all_tags \<and> version_parse w t = Version v}
         \<and> tag \<noteq> t1
         \<and> ({t. VStr t \<in> set all_tags \<and> version_parse w t = Version v} = {t1, t2}
              \<longrightarrow> tag = t2)"
proof -
  let ?p = "version_parse w"
  let ?T = "{t. VStr t \<in> set all_tags \<and> ?p t = Version v}"
  have ne: "valid_tags ?p all_tags \<noteq> []"
  proof
    assume "valid_tags ?p all_tags = []"
    then have "set (valid_tags ?p all_tags) = {}" by simp
    with t1 show False unfolding set_valid_tags by auto
  qed
  from Max_valid_tags [OF ne] obtain u t where
    m: "Max (set (valid_tags ?p all_tags)) = (u, t)"
    and t: "VStr t \<in> set all_tags" "?p t = Version u"
    and ge: "\<forall>t' v'. VStr t' \<in> set all_tags \<and> ?p t' = Version v' \<longrightarrow> (v', t') \<le> (u, t)"
    by blast
  have "(v, t2) \<le> (u, t)" using ge t2 by blast
  then have "v \<le> u" by (auto simp: less_eq_prod_def)
  moreover have "u \<le> v" using top t by blast
  ultimately have uv: "u = v" by simp
  have "?T \<subseteq> snd ` set (valid_tags ?p all_tags)"
    by (force simp: set_valid_tags)
  then have fin: "finite ?T" by (rule finite_subset) simp
  have tin: "t \<in> ?T" using t uv by simp
  have "t' \<le> t" if "t' \<in> ?T" for t'
  proof -
    have "(v, t') \<le> (v, t)" using ge that uv by blast
    then show ?thesis by (simp add: less_eq_prod_def)
  qed
  then have mx: "Max ?T = t" using fin tin by (intro Max_eqI) auto
  have "t2 \<le> t" using Max_ge [OF fin, of t2] t2 mx by simp
  with less have neq: "t \<noteq> t1" by auto
  have two: "t = t2" if "?T = {t1, t2}"
    using tin neq that by auto
  have res: "get_latest_tag w repo_name
               = Some (Inr (VStr t), [Found_tags (length all_tags) repo_name])"
    using get_latest_tag_fetched [OF fetched choose_tag_valid [OF ne]] m by simp
  have "get_latest_tag w repo_name = Some (Inr (VStr t), [Found_tags (length all_tags) repo_name])
         \<and> version_parse w t = Version v
         \<and> t = Max ?T \<and> t \<noteq> t1 \<and> (?T = {t1, t2} \<longrightarrow> t = t2)"
    using res t uv mx neq two by simp
  then show ?thesis by (intro exI)
qed

theorem equal_versions_tie_break_witness:
  "fetch_pages (requests_get world_example) (VStr (first_url ''x/y'')) [] 0 1
     = Some (Fetched [VStr ''1.0.0'', VStr ''1.2'', VStr ''1.2.0'', VStr ''build7''])
   \<and> version_parse world_example ''1.2'' = Version [1, 2]
   \<and> version_parse world_example ''1.2.0'' = Version [1, 2]
   \<and> ''1.2'' < ''1.2.0''
   \<and> version_parse world_example ''1.0.0'' = Version [1]
   \<and> version_parse world_example ''build7'' = Invalid
   \<and> (\<exists>logged. get_latest_tag world_example ''x/y'' = Some (Inr (VStr ''1.2.0''), logged))"
proof -
  let ?ts = "[VStr ''1.0.0'', VStr ''1.2'', VStr ''1.2.0'', VStr ''build7'']"
  note f = fetched_example
  have p1: "version_parse world_example ''1.2'' = Version [1, 2]"
    and p2: "version_parse world_example ''1.2.0'' = Version [1, 2]"
    by (simp_all add: world_example_def parse_examples)
  have m1: "VStr ''1.2'' \<in> set ?ts" and m2: "VStr ''1.2.0'' \<in> set ?ts" by simp_all
  have l: "''1.2'' < ''1.2.0''" by simp
  have top: "\<forall>t u. VStr t \<in> set ?ts \<and> version_parse world_example t = Version u \<longrightarrow> u \<le> [1, 2]"
    by (auto simp: world_example_def parse_examples)
  have tied: "{t. VStr t \<in> set ?ts \<and> version_parse world_example t = Version [1, 2]}
                = {''1.2'', ''1.2.0''}"
    by (auto simp: world_example_def parse_examples)
  from equal_versions_tie_break [OF f m1 p1 m2 p2 l top] tied
  have "\<exists>logged. get_latest_tag world_example ''x/y'' = Some (Inr (VStr ''1.2.0''), logged)"
    by auto
  moreover have "version_parse world_example ''1.0.0'' = Version [1]"
    and "version_parse world_example ''build7'' = Invalid"
    by (simp_all add: world_example_def parse_examples)
  ultimately show ?thesis using f p1 p2 l by (intro conjI)
qed

subsection \<open>Termination and failures\<close>

text \<open>
  Claim C4. The loop does not always end: against a registry whose every page names a next
  page and shows no tag with a digit, the page budget grows with every round, the loop
  never ends and \<^verbatim>\<open>get_latest_tag\<close> never returns.
\<close>

theorem paging_never_ends:
  "fetch_pages hub_endless (VStr (first_url repo_name)) [] 0 1 = None
   \<and> get_latest_tag world_endless repo_name = None"
proof -
  have "fetch_pages hub_endless (VStr (first_url repo_name)) [] 0 1 = None"
  proof (rule ccontr)
    assume "fetch_pages hub_endless (VStr (first_url repo_name)) [] 0 1 \<noteq> None"
    then obtain y where "fetch_pages hub_endless (VStr (first_url repo_name)) [] 0 1 = Some y"
      by auto
    from fetch_pages_endless [OF this] show False by (simp add: first_url_def keeps_paging_def)
  qed
  then show ?thesis by (simp add: get_latest_tag_def world_endless_def)
qed

text \<open>
  Claim C5, as stated: on a malformed response body \<^verbatim>\<open>get_latest_tag\<close> raises instead of
  returning \<^verbatim>\<open>None\<close>: \<^verbatim>\<open>KeyError\<close> for an entry without a \<^verbatim>\<open>name\<close>, \<^verbatim>\<open>TypeError\<close> for
  \<^verbatim>\<open>results\<close> that is \<^verbatim>\<open>null\<close>, \<^verbatim>\<open>AttributeError\<close> for a body that is a list.
\<close>

theorem malformed_body_raises:
  "get_latest_tag world_nameless ''x/y'' = Some (Inl KeyError, [])
   \<and> get_latest_tag world_null_results ''x/y'' = Some (Inl TypeError, [])
   \<and> get_latest_tag world_list_body ''x/y'' = Some (Inl AttributeError, [])"
  by (intro conjI; code_simp)

text \<open>
  Claim C5, amended. When a request that the call makes raises \<open>RequestException\<close>,
  \<^verbatim>\<open>get_latest_tag\<close> returns \<^verbatim>\<open>None\<close>; when the loop ends and no page had a candidate, it
  returns \<^verbatim>\<open>None\<close>. An exception leaves the function exactly when a request that the
  call makes raises an exception of another class, or is answered by a body on which
  lines 37 to 41 raise; the latter exceptions are \<^verbatim>\<open>KeyError\<close>, \<^verbatim>\<open>TypeError\<close> and
  \<^verbatim>\<open>AttributeError\<close>.
\<close>

theorem request_failure_returns_none:
  "(\<forall>url. asks w repo_name url \<and> requests_get w url = Raises RequestException
      \<longrightarrow> get_latest_tag w repo_name
            = Some (Inr VNone, [Error_fetching repo_name RequestException]))
   \<and> (\<forall>all_tags.
        fetch_pages (requests_get w) (VStr (first_url repo_name)) [] 0 1 = Some (Fetched all_tags)
        \<and> (\<forall>url data names next_url.
              asks w repo_name url \<and> requests_get w url = Json data
              \<and> read_page data = Inr (names, next_url) \<longrightarrow> names = [])
      \<longrightarrow> get_latest_tag w repo_name
            = Some (Inr VNone, [Found_tags 0 repo_name, No_semantic_versions repo_name]))
   \<and> (\<forall>e logged.
        get_latest_tag w repo_name = Some (Inl e, logged)
        \<longleftrightarrow> logged = []
            \<and> (\<exists>url. asks w repo_name url
                 \<and> (requests_get w url = Raises e \<and> e \<noteq> RequestException
                      \<or> (\<exists>data. requests_get w url = Json data \<and> read_page data = Inl e))))
   \<and> (\<forall>data e. read_page data = Inl e
        \<longrightarrow> e = KeyError \<or> e = TypeError \<or> e = AttributeError)"
proof (intro conjI allI impI)
  fix url
  assume "asks w repo_name url \<and> requests_get w url = Raises RequestException"
  then have "fetch_pages (requests_get w) (VStr (first_url repo_name)) [] 0 1 = Some Request_failed"
    unfolding asks_def by (blast intro: requested_failed)
  then show "get_latest_tag w repo_name
            = Some (Inr VNone, [Error_fetching repo_name RequestException])"
    by (simp add: get_latest_tag_def)
next
  fix all_tags
  assume a: "fetch_pages (requests_get w) (VStr (first_url repo_name)) [] 0 1 = Some (Fetched all_tags)
        \<and> (\<forall>url data names next_url.
              asks w repo_name url \<and> requests_get w url = Json data
              \<and> read_page data = Inr (names, next_url) \<longrightarrow> names = [])"
  then have f: "fetch_pages (requests_get w) (VStr (first_url repo_name)) [] 0 1
                  = Some (Fetched all_tags)" by simp
  from fetch_pages_no_candidates [OF f] a have "all_tags = []"
    unfolding asks_def by blast
  with f show "get_latest_tag w repo_name
            = Some (Inr VNone, [Found_tags 0 repo_name, No_semantic_versions repo_name])"
    by (simp add: get_latest_tag_def choose_tag_def)
next
  fix e logged
  show "get_latest_tag w repo_name = Some (Inl e, logged)
        \<longleftrightarrow> logged = []
            \<and> (\<exists>url. asks w repo_name url
                 \<and> (requests_get w url = Raises e \<and> e \<noteq> RequestException
                      \<or> (\<exists>data. requests_get w url = Json data \<and> read_page data = Inl e)))"
  proof
    assume g: "get_latest_tag w repo_name = Some (Inl e, logged)"
    then obtain y where f: "fetch_pages (requests_get w) (VStr (first_url repo_name)) [] 0 1 = Some y"
      by (auto simp: get_latest_tag_def split: option.splits)
    with g have "y = Raised e \<and> logged = []"
      by (auto simp: get_latest_tag_def split: fetched.splits prod.splits sum.splits)
    with fetch_pages_cases [OF f]
    show "logged = []
            \<and> (\<exists>url. asks w repo_name url
                 \<and> (requests_get w url = Raises e \<and> e \<noteq> RequestException
                      \<or> (\<exists>data. requests_get w url = Json data \<and> read_page data = Inl e)))"
      unfolding asks_def by blast
  next
    assume "logged = []
            \<and> (\<exists>url. asks w repo_name url
                 \<and> (requests_get w url = Raises e \<and> e \<noteq> RequestException
                      \<or> (\<exists>data. requests_get w url = Json data \<and> read_page data = Inl e)))"
    then have l: "logged = []"
      and "fetch_pages (requests_get w) (VStr (first_url repo_name)) [] 0 1 = Some (Raised e)"
      unfolding asks_def by (blast intro: requested_raised requested_malformed)+
    then show "get_latest_tag w repo_name = Some (Inl e, logged)"
      by (simp add: get_latest_tag_def)
  qed
next
  fix data e assume "read_page data = Inl e"
  then show "e = KeyError \<or> e = TypeError \<or> e = AttributeError" by (rule read_page_Inl)
qed

theorem request_failure_returns_none_witness:
  "asks world_failing ''x/y'' (VStr ''gone'')
   \<and> requests_get world_failing (VStr ''gone'') = Raises RequestException
   \<and> get_latest_tag world_failing ''x/y'' = Some (Inr VNone, [Error_fetching ''x/y'' RequestException])
   \<and> asks world_nameless ''x/y'' (VStr (first_url ''x/y''))
   \<and> requests_get world_nameless (VStr (first_url ''x/y''))
        = Json (VDict [(VStr ''results'', VList [VDict [(VStr ''digest'', VStr ''ab'')]]),
                       (VStr ''next'', VNone)])
   \<and> read_page (VDict [(VStr ''results'', VList [VDict [(VStr ''digest'', VStr ''ab'')]]),
                       (VStr ''next'', VNone)]) = Inl KeyError
   \<and> get_latest_tag world_nameless ''x/y'' = Some (Inl KeyError, [])"
proof -
  let ?body = "VDict [(VStr ''results'', VList [VDict [(VStr ''digest'', VStr ''ab'')]]),
                       (VStr ''next'', VNone)]"
  note a = asks_failing
  have r: "requests_get world_failing (VStr ''gone'') = Raises RequestException"
    by (simp add: world_failing_def hub_failing_def first_url_def)
  have 1: "get_latest_tag world_failing ''x/y''
             = Some (Inr VNone, [Error_fetching ''x/y'' RequestException])"
    using request_failure_returns_none [of world_failing "''x/y''", THEN conjunct1,
        rule_format, of "VStr ''gone''"] a r
    by simp
  have b: "asks world_nameless ''x/y'' (VStr (first_url ''x/y''))" by (rule asks_first)
  have j: "requests_get world_nameless (VStr (first_url ''x/y'')) = Json ?body"
    by (simp add: world_nameless_def hub_nameless_def)
  have k: "read_page ?body = Inl KeyError" by code_simp
  have "\<exists>url. asks world_nameless ''x/y'' url
           \<and> (requests_get world_nameless url = Raises KeyError \<and> KeyError \<noteq> RequestException
                \<or> (\<exists>data. requests_get world_nameless url = Json data
                       \<and> read_page data = Inl KeyError))"
    using b j k by blast
  then have 2: "get_latest_tag world_nameless ''x/y'' = Some (Inl KeyError, [])"
    using request_failure_returns_none [of world_nameless "''x/y''",
        THEN conjunct2, THEN conjunct2, THEN conjunct1, rule_format, of KeyError "[]"]
    by simp
  show ?thesis
    by (intro conjI) (rule a r 1 b j k 2)+
qed

section \<open>Properties of \<^verbatim>\<open>update_config_files\<close>\<close>

subsection \<open>A file is written only in its own round\<close>

lemma apply_latest_other:
  assumes "apply_latest w p config img latest st = (r, st')" and "q \<noteq> p"
  shows "disk st' q = disk st q"
  using assms
  by (auto simp: apply_latest_def logging_def Let_def split: if_splits)

lemma try_file_other:
  assumes "try_file w p st = Some (r, st')" and "q \<noteq> p"
  shows "disk st' q = disk st q"
proof -
  note sp = option.splits sum.splits pyval.splits prod.splits
  from assms(1) consider "disk st' = disk st"
    | config img latest st0 where "apply_latest w p config img latest st0 = (r, st')" "disk st0 = disk st"
    by (fastforce simp: try_file_def logging_def split: sp)
  then show ?thesis
  proof cases
    case 1 then show ?thesis by simp
  next
    case 2 with apply_latest_other [OF 2(1) assms(2)] show ?thesis by simp
  qed
qed

lemma process_file_other:
  assumes "process_file w p st = Some st'" and "q \<noteq> p"
  shows "disk st' q = disk st q"
proof -
  from assms(1) obtain r st1 where t: "try_file w p st = Some (r, st1)"
    and d: "disk st' = disk st1"
    by (auto simp: process_file_def logging_def split: option.splits prod.splits sum.splits)
  from try_file_other [OF t assms(2)] d show ?thesis by simp
qed

lemma for_files_keeps:
  assumes keep: "\<And>st st'. disk st path = X \<Longrightarrow> process_file w path st = Some st'
                   \<Longrightarrow> disk st' path = X"
    and "for_files w root names st = Some st'" and "disk st path = X"
  shows "disk st' path = X"
  using assms(2,3)
proof (induction names arbitrary: st)
  case Nil
  then show ?case by simp
next
  case (Cons name names)
  show ?case
  proof (cases "name = ''config.yaml''")
    case False
    with Cons show ?thesis by simp
  next
    case True
    with Cons.prems(1) obtain st1 where p: "process_file w (path_join root name) st = Some st1"
      and r: "for_files w root names st1 = Some st'"
      by (auto split: option.splits)
    have "disk st1 path = X"
    proof (cases "path_join root name = path")
      case True
      with keep [OF Cons.prems(2)] p show ?thesis by simp
    next
      case False
      then have "path \<noteq> path_join root name" by blast
      from process_file_other [OF p this] Cons.prems(2) show ?thesis by simp
    qed
    from Cons.IH [OF r this] show ?thesis .
  qed
qed

lemma for_walk_keeps:
  assumes keep: "\<And>st st'. disk st path = X \<Longrightarrow> process_file w path st = Some st'
                   \<Longrightarrow> disk st' path = X"
    and "for_walk w walk st = Some st'" and "disk st path = X"
  shows "disk st' path = X"
  using assms(2,3)
proof (induction walk arbitrary: st)
  case Nil
  then show ?case by simp
next
  case (Cons entry walk)
  obtain root dirs files where e: "entry = (root, dirs, files)" by (cases entry)
  with Cons.prems(1) obtain st1 where f: "for_files w root files st = Some st1"
    and r: "for_walk w walk st1 = Some st'"
    by (auto split: option.splits)
  from for_files_keeps [OF keep f Cons.prems(2)] have "disk st1 path = X" by simp
  from Cons.IH [OF r this] show ?case .
qed

lemma update_config_files_keeps:
  assumes keep: "\<And>st st'. disk st path = X \<Longrightarrow> process_file w path st = Some st'
                   \<Longrightarrow> disk st' path = X"
    and "update_config_files w directory fs = Some (res, st')" and "fs path = X"
  shows "disk st' path = X"
proof -
  from assms(2) have "for_walk w (os_walk w directory) (initial fs) = Some st'"
    by (auto simp: update_config_files_def split: option.splits)
  moreover have "disk (initial fs) path = X" using assms(3) by (simp add: initial_def)
  ultimately show ?thesis using keep by (rule for_walk_keeps [rotated])
qed

lemma run_example: "map_option fst (update_config_files world_example ''.'' fs_example) = Some (1, 1)"
  by code_simp

subsection \<open>The rounds of the walk\<close>

text \<open>
  Claim C3, as stated: a file that cannot be opened for writing loads as a mapping with
  an image, the resolver returns a tag that differs from its version, and yet the file
  keeps its contents and it is \<^verbatim>\<open>error_count\<close>, not \<^verbatim>\<open>updated_count\<close>, that grows.
\<close>

theorem read_only_file_not_updated:
  "disk (initial fs_example) ''./a/config.yaml'' = Some ''{image: x/y, version: 1.0.0}''
   \<and> safe_load world_readonly ''{image: x/y, version: 1.0.0}'' = Inr (VDict config_example)
   \<and> map_of config_example (VStr ''image'') = Some (VStr ''x/y'')
   \<and> get_latest_tag world_readonly (repo_name_of world_readonly (VStr ''x/y''))
        = Some (Inr (VStr ''1.2.0''), [Found_tags 4 ''x/y''])
   \<and> map_of config_example (VStr ''version'') \<noteq> Some (VStr ''1.2.0'')
   \<and> map_option updated_count (process_file world_readonly ''./a/config.yaml'' (initial fs_example))
        = Some (updated_count (initial fs_example))
   \<and> map_option error_count (process_file world_readonly ''./a/config.yaml'' (initial fs_example))
        = Some (error_count (initial fs_example) + 1)
   \<and> map_option (\<lambda>st. disk st ''./a/config.yaml'')
          (process_file world_readonly ''./a/config.yaml'' (initial fs_example))
        = Some (Some ''{image: x/y, version: 1.0.0}'')"
proof (intro conjI)
  show "disk (initial fs_example) ''./a/config.yaml'' = Some ''{image: x/y, version: 1.0.0}''"
    by (simp add: initial_def fs_example_def)
  show "safe_load world_readonly ''{image: x/y, version: 1.0.0}'' = Inr (VDict config_example)"
    by (simp add: world_readonly_def world_example_def load_example_def config_example_def)
  show "map_of config_example (VStr ''image'') = Some (VStr ''x/y'')"
    by (simp add: config_example_def)
  show "get_latest_tag world_readonly (repo_name_of world_readonly (VStr ''x/y''))
        = Some (Inr (VStr ''1.2.0''), [Found_tags 4 ''x/y''])"
    by code_simp
  show "map_of config_example (VStr ''version'') \<noteq> Some (VStr ''1.2.0'')"
    by (simp add: config_example_def)
  show "map_option updated_count (process_file world_readonly ''./a/config.yaml'' (initial fs_example))
        = Some (updated_count (initial fs_example))"
    by code_simp
  show "map_option error_count (process_file world_readonly ''./a/config.yaml'' (initial fs_example))
        = Some (error_count (initial fs_example) + 1)"
    by code_simp
  show "map_option (\<lambda>st. disk st ''./a/config.yaml'')
          (process_file world_readonly ''./a/config.yaml'' (initial fs_example))
        = Some (Some ''{image: x/y, version: 1.0.0}'')"
    by code_simp
qed

text \<open>
  Claim C3, amended. For a file that loads as a mapping with an image for which
  \<^verbatim>\<open>get_latest_tag\<close> returns the tag \<open>T\<close>: when \<open>T\<close> differs from the current version
  (a missing version differs) and the file can be opened for writing, the round writes
  the dump of the mapping with \<^verbatim>\<open>version\<close> set to \<open>T\<close> and every other key as it was,
  and adds one to \<^verbatim>\<open>updated_count\<close> only; when the file cannot be opened for writing,
  it is left as it was and \<^verbatim>\<open>error_count\<close> grows by one instead; when \<open>T\<close> is the
  current version, no file and no counter changes.
\<close>

theorem version_written_when_different:
  assumes read: "disk st path = Some content"
    and load: "safe_load w content = Inr (VDict config)"
    and img: "map_of config (VStr ''image'') = Some img"
    and tag: "get_latest_tag w (repo_name_of w img) = Some (Inr (VStr T), logged)"
  shows "(map_of config (VStr ''version'') \<noteq> Some (VStr T) \<and> writable w path \<longrightarrow>
            (\<exists>st'. process_file w path st = Some st'
               \<and> disk st' = (disk st)(path \<mapsto> dump w (AList.update (VStr ''version'') (VStr T) config))
               \<and> map_of (AList.update (VStr ''version'') (VStr T) config)
                    = (map_of config)(VStr ''version'' \<mapsto> VStr T)
               \<and> updated_count st' = updated_count st + 1
               \<and> error_count st' = error_count st))
       \<and> (map_of config (VStr ''version'') \<noteq> Some (VStr T) \<and> \<not> writable w path \<longrightarrow>
            (\<exists>st'. process_file w path st = Some st'
               \<and> disk st' = disk st
               \<and> updated_count st' = updated_count st
               \<and> error_count st' = error_count st + 1))
       \<and> (map_of config (VStr ''version'') = Some (VStr T) \<longrightarrow>
            (\<exists>st'. process_file w path st = Some st'
               \<and> disk st' = disk st
               \<and> updated_count st' = updated_count st
               \<and> error_count st' = error_count st))"
proof -
  from get_latest_tag_nonempty(2) [OF tag] have ne: "T \<noteq> []" .
  have ver: "version_of config \<noteq> VStr T \<longleftrightarrow> map_of config (VStr ''version'') \<noteq> Some (VStr T)"
    by (auto simp: version_of_def split: option.splits)
  show ?thesis
    using read load img tag ne
    by (simp add: process_file_def try_file_def apply_latest_def logging_def Let_def
        update_conv' ver)
qed

theorem version_written_when_different_witness:
  "disk (initial fs_example) ''./a/config.yaml'' = Some ''{image: x/y, version: 1.0.0}''
   \<and> safe_load world_example ''{image: x/y, version: 1.0.0}'' = Inr (VDict config_example)
   \<and> map_of config_example (VStr ''image'') = Some (VStr ''x/y'')
   \<and> get_latest_tag world_example (repo_name_of world_example (VStr ''x/y''))
        = Some (Inr (VStr ''1.2.0''), [Found_tags 4 ''x/y''])
   \<and> map_of config_example (VStr ''version'') \<noteq> Some (VStr ''1.2.0'')
   \<and> writable world_example ''./a/config.yaml''
   \<and> (\<exists>st'. process_file world_example ''./a/config.yaml'' (initial fs_example) = Some st'
         \<and> disk st' = fs_example(''./a/config.yaml'' \<mapsto> ''{image: x/y, version: 1.2.0}'')
         \<and> updated_count st' = 1
         \<and> error_count st' = 0)
   \<and> \<not> writable world_readonly ''./a/config.yaml''
   \<and> (\<exists>st'. process_file world_readonly ''./a/config.yaml'' (initial fs_example) = Some st'
         \<and> disk st' = fs_example
         \<and> updated_count st' = 0
         \<and> error_count st' = 1)
   \<and> map_of (AList.update (VStr ''version'') (VStr ''1.2.0'') config_example) (VStr ''version'')
        = Some (VStr ''1.2.0'')
   \<and> (\<exists>st'. process_file world_example ''./a/config.yaml''
                (initial (fs_example(''./a/config.yaml'' \<mapsto> ''{image: x/y, version: 1.2.0}'')))
              = Some st'
         \<and> disk st' = fs_example(''./a/config.yaml'' \<mapsto> ''{image: x/y, version: 1.2.0}'')
         \<and> updated_count st' = 0
         \<and> error_count st' = 0)"
proof -
  let ?p = "''./a/config.yaml''"
  let ?new = "AList.update (VStr ''version'') (VStr ''1.2.0'') config_example"
  let ?fs = "fs_example(?p \<mapsto> ''{image: x/y, version: 1.2.0}'')"
  have a: "disk (initial fs_example) ?p = Some ''{image: x/y, version: 1.0.0}''"
    by (simp add: initial_def fs_example_def)
  have b: "safe_load world_example ''{image: x/y, version: 1.0.0}'' = Inr (VDict config_example)"
    by (simp add: world_example_def load_example_def config_example_def)
  have c: "map_of config_example (VStr ''image'') = Some (VStr ''x/y'')"
    by (simp add: config_example_def)
  have g: "get_latest_tag world_example (repo_name_of world_example (VStr ''x/y''))
        = Some (Inr (VStr ''1.2.0''), [Found_tags 4 ''x/y''])"
    by code_simp
  have v: "map_of config_example (VStr ''version'') \<noteq> Some (VStr ''1.2.0'')"
    by (simp add: config_example_def)
  have w: "writable world_example ?p"
    by (simp add: world_example_def)
  have d: "dump world_example ?new = ''{image: x/y, version: 1.2.0}''"
    by (simp add: world_example_def dump_example_def config_example_def)
  from version_written_when_different [OF a b c g] v w
  have "\<exists>st'. process_file world_example ?p (initial fs_example) = Some st'
         \<and> disk st' = (disk (initial fs_example))(?p \<mapsto> dump world_example ?new)
         \<and> updated_count st' = updated_count (initial fs_example) + 1
         \<and> error_count st' = error_count (initial fs_example)"
    by blast
  then have 1: "\<exists>st'. process_file world_example ?p (initial fs_example) = Some st'
         \<and> disk st' = ?fs \<and> updated_count st' = 1 \<and> error_count st' = 0"
    by (simp add: d initial_def)
  have b': "safe_load world_readonly ''{image: x/y, version: 1.0.0}'' = Inr (VDict config_example)"
    using b by (simp add: world_readonly_def)
  have g': "get_latest_tag world_readonly (repo_name_of world_readonly (VStr ''x/y''))
        = Some (Inr (VStr ''1.2.0''), [Found_tags 4 ''x/y''])"
    by code_simp
  have w': "\<not> writable world_readonly ?p"
    by (simp add: world_readonly_def)
  from version_written_when_different [OF a b' c g'] v w'
  have "\<exists>st'. process_file world_readonly ?p (initial fs_example) = Some st'
         \<and> disk st' = disk (initial fs_example)
         \<and> updated_count st' = updated_count (initial fs_example)
         \<and> error_count st' = error_count (initial fs_example) + 1"
    by blast
  then have 2: "\<exists>st'. process_file world_readonly ?p (initial fs_example) = Some st'
         \<and> disk st' = fs_example \<and> updated_count st' = 0 \<and> error_count st' = 1"
    by (simp add: initial_def)
  have a3: "disk (initial ?fs) ?p = Some ''{image: x/y, version: 1.2.0}''"
    by (simp add: initial_def)
  have b3: "safe_load world_example ''{image: x/y, version: 1.2.0}'' = Inr (VDict ?new)"
    by (simp add: world_example_def load_example_def config_example_def)
  have c3: "map_of ?new (VStr ''image'') = Some (VStr ''x/y'')"
    by (simp add: config_example_def)
  have v3: "map_of ?new (VStr ''version'') = Some (VStr ''1.2.0'')"
    by (simp add: config_example_def)
  from version_written_when_different [OF a3 b3 c3 g] v3
  have "\<exists>st'. process_file world_example ?p (initial ?fs) = Some st'
         \<and> disk st' = disk (initial ?fs)
         \<and> updated_count st' = updated_count (initial ?fs)
         \<and> error_count st' = error_count (initial ?fs)"
    by blast
  then have 3: "\<exists>st'. process_file world_example ?p (initial ?fs) = Some st'
         \<and> disk st' = ?fs \<and> updated_count st' = 0 \<and> error_count st' = 0"
    by (simp add: initial_def)
  from a b c g v w 1 w' 2 v3 3 show ?thesis by blast
qed

text \<open>
  Claim C6, as stated: a malformed body is a transport failure too, and on it the
  exception of \<^verbatim>\<open>get_latest_tag\<close> reaches the handler of line 116: the file keeps its
  contents, but \<^verbatim>\<open>error_count\<close> grows by one.
\<close>

theorem malformed_body_counts_error:
  "disk (initial fs_example) ''./a/config.yaml'' = Some ''{image: x/y, version: 1.0.0}''
   \<and> safe_load world_nameless ''{image: x/y, version: 1.0.0}'' = Inr (VDict config_example)
   \<and> map_of config_example (VStr ''image'') = Some (VStr ''x/y'')
   \<and> requests_get world_nameless (VStr (first_url ''x/y''))
        = Json (VDict [(VStr ''results'', VList [VDict [(VStr ''digest'', VStr ''ab'')]]),
                       (VStr ''next'', VNone)])
   \<and> get_latest_tag world_nameless (repo_name_of world_nameless (VStr ''x/y''))
        = Some (Inl KeyError, [])
   \<and> map_option error_count (process_file world_nameless ''./a/config.yaml'' (initial fs_example))
        = Some (error_count (initial fs_example) + 1)
   \<and> map_option updated_count (process_file world_nameless ''./a/config.yaml'' (initial fs_example))
        = Some (updated_count (initial fs_example))
   \<and> map_option (\<lambda>st. disk st ''./a/config.yaml'')
          (process_file world_nameless ''./a/config.yaml'' (initial fs_example))
        = Some (Some ''{image: x/y, version: 1.0.0}'')"
proof (intro conjI)
  show "disk (initial fs_example) ''./a/config.yaml'' = Some ''{image: x/y, version: 1.0.0}''"
    by (simp add: initial_def fs_example_def)
  show "safe_load world_nameless ''{image: x/y, version: 1.0.0}'' = Inr (VDict config_example)"
    by (simp add: world_nameless_def world_example_def load_example_def config_example_def)
  show "map_of config_example (VStr ''image'') = Some (VStr ''x/y'')"
    by (simp add: config_example_def)
  show "requests_get world_nameless (VStr (first_url ''x/y''))
        = Json (VDict [(VStr ''results'', VList [VDict [(VStr ''digest'', VStr ''ab'')]]),
                       (VStr ''next'', VNone)])"
    by (simp add: world_nameless_def hub_nameless_def)
  show "get_latest_tag world_nameless (repo_name_of world_nameless (VStr ''x/y''))
        = Some (Inl KeyError, [])"
    by code_simp
  show "map_option error_count (process_file world_nameless ''./a/config.yaml'' (initial fs_example))
        = Some (error_count (initial fs_example) + 1)"
    by code_simp
  show "map_option updated_count (process_file world_nameless ''./a/config.yaml'' (initial fs_example))
        = Some (updated_count (initial fs_example))"
    by code_simp
  show "map_option (\<lambda>st. disk st ''./a/config.yaml'')
          (process_file world_nameless ''./a/config.yaml'' (initial fs_example))
        = Some (Some ''{image: x/y, version: 1.0.0}'')"
    by code_simp
qed

text \<open>
  Claim C6, amended. For a file that loads as a mapping with an image: when a request
  that the resolution makes raises \<open>RequestException\<close>, the round changes nothing but the
  log (the error of the resolver and the warning of the updater), no file and no
  counter, and the file has the same contents after the whole run; when an exception
  leaves \<^verbatim>\<open>get_latest_tag\<close>, the round logs it and adds one to \<^verbatim>\<open>error_count\<close>, and no
  file and not \<^verbatim>\<open>updated_count\<close> changes.
\<close>

theorem transport_failure_leaves_file:
  assumes "fs path = Some content"
    and "safe_load w content = Inr (VDict config)"
    and "map_of config (VStr ''image'') = Some img"
  shows "(\<forall>url. asks w (repo_name_of w img) url \<and> requests_get w url = Raises RequestException
            \<longrightarrow> (\<forall>st. disk st path = Some content \<longrightarrow>
                   process_file w path st
                     = Some (st\<lparr>log := log st @
                               [Processing path img,
                                Error_fetching (repo_name_of w img) RequestException,
                                Could_not_determine img]\<rparr>))
              \<and> (\<forall>directory res st'. update_config_files w directory fs = Some (res, st')
                   \<longrightarrow> disk st' path = Some content))
       \<and> (\<forall>e logged. get_latest_tag w (repo_name_of w img) = Some (Inl e, logged)
            \<longrightarrow> (\<forall>st. disk st path = Some content \<longrightarrow>
                   process_file w path st
                     = Some (st\<lparr>log := log st @ Processing path img # logged
                                        @ [Error_processing path e],
                               error_count := error_count st + 1\<rparr>)))"
proof -
  have failed: "fetch_pages (requests_get w) (VStr (first_url (repo_name_of w img))) [] 0 1
                  = Some Request_failed"
    if "asks w (repo_name_of w img) url \<and> requests_get w url = Raises RequestException" for url
    using that unfolding asks_def by (blast intro: requested_failed)
  have step: "process_file w path st
              = Some (st\<lparr>log := log st @
                        [Processing path img,
                         Error_fetching (repo_name_of w img) RequestException,
                         Could_not_determine img]\<rparr>)"
    if "asks w (repo_name_of w img) url \<and> requests_get w url = Raises RequestException"
      and "disk st path = Some content" for url st
    using that(2) assms(2,3) failed [OF that(1)]
    by (simp add: process_file_def try_file_def get_latest_tag_def apply_latest_def logging_def)
  have run: "disk st' path = Some content"
    if a: "asks w (repo_name_of w img) url \<and> requests_get w url = Raises RequestException"
      and u: "update_config_files w directory fs = Some (res, st')" for url directory res st'
  proof (rule update_config_files_keeps [OF _ u assms(1)])
    fix st st1 assume b: "disk st path = Some content" "process_file w path st = Some st1"
    from step [OF a b(1)] b show "disk st1 path = Some content" by auto
  qed
  have raised: "process_file w path st
                     = Some (st\<lparr>log := log st @ Processing path img # logged
                                        @ [Error_processing path e],
                               error_count := error_count st + 1\<rparr>)"
    if "get_latest_tag w (repo_name_of w img) = Some (Inl e, logged)"
      and "disk st path = Some content" for e logged st
    using that assms(2,3) by (simp add: process_file_def try_file_def logging_def)
  show ?thesis
  proof (intro conjI allI impI, goal_cases)
    case (1 url st)
    then show ?case by (rule step)
  next
    case (2 url directory res st')
    then show ?case by (rule run)
  next
    case (3 e logged st)
    then show ?case by (rule raised)
  qed
qed

theorem transport_failure_leaves_file_witness:
  "fs_example ''./d/config.yaml'' = Some ''{image: gone/z}''
   \<and> safe_load world_example ''{image: gone/z}'' = Inr (VDict [(VStr ''image'', VStr ''gone/z'')])
   \<and> asks world_example ''gone/z'' (VStr (first_url ''gone/z''))
   \<and> requests_get world_example (VStr (first_url ''gone/z'')) = Raises RequestException
   \<and> process_file world_example ''./d/config.yaml'' (initial fs_example)
       = Some ((initial fs_example)\<lparr>log :=
                 [Processing ''./d/config.yaml'' (VStr ''gone/z''),
                  Error_fetching ''gone/z'' RequestException,
                  Could_not_determine (VStr ''gone/z'')]\<rparr>)
   \<and> (\<exists>res st'. update_config_files world_example ''.'' fs_example = Some (res, st')
        \<and> disk st' ''./d/config.yaml'' = Some ''{image: gone/z}'')"
proof -
  let ?p = "''./d/config.yaml''"
  let ?img = "VStr ''gone/z''"
  have a: "fs_example ?p = Some ''{image: gone/z}''"
    by (simp add: fs_example_def)
  have b: "safe_load world_example ''{image: gone/z}'' = Inr (VDict [(VStr ''image'', ?img)])"
    by (simp add: world_example_def load_example_def)
  have c: "map_of [(VStr ''image'', ?img)] (VStr ''image'') = Some ?img"
    by simp
  have q: "asks world_example ''gone/z'' (VStr (first_url ''gone/z''))" by (rule asks_first)
  have r: "requests_get world_example (VStr (first_url ''gone/z'')) = Raises RequestException"
    by (simp add: world_example_def hub_example_def first_url_def)
  have n: "repo_name_of world_example ?img = ''gone/z''" by simp
  have d: "disk (initial fs_example) ?p = Some ''{image: gone/z}''"
    using a by (simp add: initial_def)
  obtain res st' where u: "update_config_files world_example ''.'' fs_example = Some (res, st')"
    using run_example by (cases "update_config_files world_example ''.'' fs_example") auto
  note t = transport_failure_leaves_file [where fs = fs_example and path = ?p, OF a b c,
      THEN conjunct1, rule_format, of "VStr (first_url ''gone/z'')", unfolded n, OF conjI [OF q r]]
  from t [THEN conjunct1, rule_format, OF d]
  have 1: "process_file world_example ?p (initial fs_example)
       = Some ((initial fs_example)\<lparr>log :=
                 [Processing ?p ?img, Error_fetching ''gone/z'' RequestException,
                  Could_not_determine ?img]\<rparr>)"
    by (simp add: initial_def)
  from t [THEN conjunct2, rule_format, OF u]
  have 2: "disk st' ?p = Some ''{image: gone/z}''" .
  from u 2 have 3: "\<exists>res st'. update_config_files world_example ''.'' fs_example = Some (res, st')
        \<and> disk st' ?p = Some ''{image: gone/z}''" by blast
  show ?thesis
    by (intro conjI) (rule a b q r 1 3)+
qed

text \<open>
  Claim C7. For a file that loads as a mapping without the key \<^verbatim>\<open>image\<close>, the round
  leaves the whole state as it is, both counters included, and the file has the same
  contents after the whole run.
\<close>

theorem no_image_never_rewritten:
  assumes "fs path = Some content"
    and "safe_load w content = Inr (VDict config)"
    and "map_of config (VStr ''image'') = None"
  shows "(\<forall>st. disk st path = Some content \<longrightarrow> process_file w path st = Some st)
       \<and> (\<forall>directory res st'. update_config_files w directory fs = Some (res, st')
            \<longrightarrow> disk st' path = Some content)"
proof -
  have step: "process_file w path st = Some st" if "disk st path = Some content" for st
    using that assms(2,3) by (simp add: process_file_def try_file_def)
  have "disk st' path = Some content"
    if "update_config_files w directory fs = Some (res, st')" for directory res st'
  proof (rule update_config_files_keeps [OF _ that assms(1)])
    fix st st1 assume "disk st path = Some content" "process_file w path st = Some st1"
    with step show "disk st1 path = Some content" by simp
  qed
  with step show ?thesis by blast
qed

theorem no_image_never_rewritten_witness:
  "fs_example ''./config.yaml'' = Some ''{name: demo}''
   \<and> safe_load world_example ''{name: demo}'' = Inr (VDict [(VStr ''name'', VStr ''demo'')])
   \<and> map_of [(VStr ''name'', VStr ''demo'')] (VStr ''image'') = None
   \<and> process_file world_example ''./config.yaml'' (initial fs_example) = Some (initial fs_example)
   \<and> (\<exists>res st'. update_config_files world_example ''.'' fs_example = Some (res, st')
        \<and> disk st' ''./config.yaml'' = Some ''{name: demo}'')"
proof -
  have a: "fs_example ''./config.yaml'' = Some ''{name: demo}''"
    by (simp add: fs_example_def)
  have b: "safe_load world_example ''{name: demo}'' = Inr (VDict [(VStr ''name'', VStr ''demo'')])"
    by (simp add: world_example_def load_example_def)
  have c: "map_of [(VStr ''name'', VStr ''demo'')] (VStr ''image'') = None"
    by simp
  have d: "disk (initial fs_example) ''./config.yaml'' = Some ''{name: demo}''"
    using a by (simp add: initial_def)
  obtain res st' where r: "update_config_files world_example ''.'' fs_example = Some (res, st')"
    using run_example by (cases "update_config_files world_example ''.'' fs_example") auto
  from no_image_never_rewritten [where fs = fs_example and path = "''./config.yaml''", OF a b c] d r a b c show ?thesis by blast
qed

text \<open>
  Claim C8. For a file that cannot be read or whose contents the loader rejects, the
  round adds one to \<^verbatim>\<open>error_count\<close>, logs the error and changes nothing else; the file
  is the same after the whole run.
\<close>

theorem load_failure_counts_error:
  assumes "fs path = X"
    and "X = None \<or> (\<exists>content e. X = Some content \<and> safe_load w content = Inl e)"
  shows "(\<forall>st. disk st path = X \<longrightarrow>
            (\<exists>e. process_file w path st
               = Some (st\<lparr>log := log st @ [Error_processing path e],
                          error_count := error_count st + 1\<rparr>)))
       \<and> (\<forall>directory res st'. update_config_files w directory fs = Some (res, st')
            \<longrightarrow> disk st' path = X)"
proof -
  have step: "\<exists>e. process_file w path st
               = Some (st\<lparr>log := log st @ [Error_processing path e],
                          error_count := error_count st + 1\<rparr>)"
    if "disk st path = X" for st
    using that assms(2) by (auto simp: process_file_def try_file_def logging_def)
  have "disk st' path = X"
    if "update_config_files w directory fs = Some (res, st')" for directory res st'
  proof (rule update_config_files_keeps [OF _ that assms(1)])
    fix st st1 assume a: "disk st path = X" "process_file w path st = Some st1"
    from step [OF a(1)] a show "disk st1 path = X" by auto
  qed
  with step show ?thesis by blast
qed

theorem load_failure_counts_error_witness:
  "fs_example ''./b/config.yaml'' = Some ''{image''
   \<and> safe_load world_example ''{image'' = Inl YAMLError
   \<and> fs_example ''./e/config.yaml'' = None
   \<and> (\<exists>e. process_file world_example ''./b/config.yaml'' (initial fs_example)
          = Some ((initial fs_example)\<lparr>log := [Error_processing ''./b/config.yaml'' e],
                                        error_count := 1\<rparr>))
   \<and> (\<exists>e. process_file world_example ''./e/config.yaml'' (initial fs_example)
          = Some ((initial fs_example)\<lparr>log := [Error_processing ''./e/config.yaml'' e],
                                        error_count := 1\<rparr>))"
proof -
  have a: "fs_example ''./b/config.yaml'' = Some ''{image''"
    and n: "fs_example ''./e/config.yaml'' = None"
    by (simp_all add: fs_example_def)
  have b: "safe_load world_example ''{image'' = Inl YAMLError"
    by (simp add: world_example_def load_example_def)
  have h1: "Some ''{image'' = None
          \<or> (\<exists>content e. Some ''{image'' = Some content \<and> safe_load world_example content = Inl e)"
    using b by simp
  have h2: "(None :: string option) = None
          \<or> (\<exists>content e. None = Some content \<and> safe_load world_example content = Inl e)"
    by simp
  have d1: "disk (initial fs_example) ''./b/config.yaml'' = Some ''{image''"
    and d2: "disk (initial fs_example) ''./e/config.yaml'' = None"
    using a n by (simp_all add: initial_def)
  from load_failure_counts_error [where fs = fs_example and path = "''./b/config.yaml''", OF a h1]
  have "\<exists>e. process_file world_example ''./b/config.yaml'' (initial fs_example)
          = Some ((initial fs_example)\<lparr>log := log (initial fs_example) @ [Error_processing ''./b/config.yaml'' e],
                        error_count := error_count (initial fs_example) + 1\<rparr>)"
    using d1 by blast
  then have 1: "\<exists>e. process_file world_example ''./b/config.yaml'' (initial fs_example)
          = Some ((initial fs_example)\<lparr>log := [Error_processing ''./b/config.yaml'' e],
                                        error_count := 1\<rparr>)"
    by (simp add: initial_def)
  from load_failure_counts_error [where fs = fs_example and path = "''./e/config.yaml''", OF n h2]
  have "\<exists>e. process_file world_example ''./e/config.yaml'' (initial fs_example)
          = Some ((initial fs_example)\<lparr>log := log (initial fs_example) @ [Error_processing ''./e/config.yaml'' e],
                        error_count := error_count (initial fs_example) + 1\<rparr>)"
    using d2 by blast
  then have 2: "\<exists>e. process_file world_example ''./e/config.yaml'' (initial fs_example)
          = Some ((initial fs_example)\<lparr>log := [Error_processing ''./e/config.yaml'' e],
                                        error_count := 1\<rparr>)"
    by (simp add: initial_def)
  from a b n 1 2 show ?thesis by blast
qed

text \<open>
  Claim C10. For a file whose contents load as \<^verbatim>\<open>None\<close>, the round logs the warning for
  a value that is not a dictionary and changes nothing else: no file and no counter.
  The file has the same contents after the whole run.
\<close>

theorem null_document_skipped:
  assumes "fs path = Some content" and "safe_load w content = Inr VNone"
  shows "(\<forall>st. disk st path = Some content \<longrightarrow>
            process_file w path st = Some (st\<lparr>log := log st @ [Skipping_not_dict path]\<rparr>))
       \<and> level_of (Skipping_not_dict path) = WARNING
       \<and> (\<forall>directory res st'. update_config_files w directory fs = Some (res, st')
            \<longrightarrow> disk st' path = Some content)"
proof -
  have step: "process_file w path st = Some (st\<lparr>log := log st @ [Skipping_not_dict path]\<rparr>)"
    if "disk st path = Some content" for st
    using that assms(2) by (simp add: process_file_def try_file_def logging_def)
  have "disk st' path = Some content"
    if "update_config_files w directory fs = Some (res, st')" for directory res st'
  proof (rule update_config_files_keeps [OF _ that assms(1)])
    fix st st1 assume a: "disk st path = Some content" "process_file w path st = Some st1"
    from step [OF a(1)] a show "disk st1 path = Some content" by auto
  qed
  with step show ?thesis by simp
qed

theorem null_document_skipped_witness:
  "fs_example ''./c/config.yaml'' = Some []
   \<and> safe_load world_example [] = Inr VNone
   \<and> process_file world_example ''./c/config.yaml'' (initial fs_example)
       = Some ((initial fs_example)\<lparr>log := [Skipping_not_dict ''./c/config.yaml'']\<rparr>)
   \<and> (\<exists>res st'. update_config_files world_example ''.'' fs_example = Some (res, st')
        \<and> disk st' ''./c/config.yaml'' = Some [])"
proof -
  have a: "fs_example ''./c/config.yaml'' = Some []"
    by (simp add: fs_example_def)
  have b: "safe_load world_example [] = Inr VNone"
    by (simp add: world_example_def load_example_def)
  have d: "disk (initial fs_example) ''./c/config.yaml'' = Some []"
    using a by (simp add: initial_def)
  obtain res st' where r: "update_config_files world_example ''.'' fs_example = Some (res, st')"
    using run_example by (cases "update_config_files world_example ''.'' fs_example") auto
  from null_document_skipped [where fs = fs_example and path = "''./c/config.yaml''", OF a b] d
  have 1: "process_file world_example ''./c/config.yaml'' (initial fs_example)
       = Some ((initial fs_example)\<lparr>log := [Skipping_not_dict ''./c/config.yaml'']\<rparr>)"
    by (simp add: initial_def)
  from null_document_skipped [where fs = fs_example and path = "''./c/config.yaml''", OF a b] r have 2: "disk st' ''./c/config.yaml'' = Some []" by blast
  from a b 1 2 r show ?thesis by blast
qed

end
